theory Spec2Isabelle
  imports Complex_Main
begin

section \<open>Layered configuration of halmos (src/halmos/config.py)\<close>

text \<open>
  A shallow embedding of the configuration module: the precedence enumeration, the
  layers of a configuration with their parent links, the precedence lookup
  \<open>value_with_source\<close>, the construction of a layer by \<open>with_overrides\<close>, the derived
  solver command, the value codecs (the \<open>argparse\<close> actions with their \<open>parse\<close> and
  \<open>unparse\<close>), the reader of the parsed TOML document and the config-file locator.

  Strings are lists of 8-bit characters; the model covers ASCII text. Exceptions and
  process exits are values of a sum type, and the warnings printed and the external
  calls made are threaded through an explicit state.
\<close>

subsection \<open>Sources and values\<close>

text \<open>\<open>class ConfigSource(IntEnum)\<close>; \<open>default\<close> is a constant of HOL, hence the suffix.\<close>

datatype ConfigSource =
  void | default_source | config_file | contract_annotation | function_annotation | command_line

fun source_value :: "ConfigSource \<Rightarrow> int" where
  "source_value void = 0"
| "source_value default_source = 1"
| "source_value config_file = 2"
| "source_value contract_annotation = 3"
| "source_value function_annotation = 4"
| "source_value command_line = 5"

fun source_name :: "ConfigSource \<Rightarrow> string" where
  "source_name void = ''void''"
| "source_name default_source = ''default''"
| "source_name config_file = ''config_file''"
| "source_name contract_annotation = ''contract_annotation''"
| "source_name function_annotation = ''function_annotation''"
| "source_name command_line = ''command_line''"

text \<open>\<open>class TraceEvent(Enum)\<close>, in declaration order.\<close>

datatype TraceEvent = LOG | SSTORE | SLOAD

text \<open>
  The Python values a configuration field or a TOML entry can hold. \<open>None\<close> is not among
  them: a field that may be \<open>None\<close> has type \<open>pyval option\<close>. Floats are modelled by exact
  rationals.
\<close>

datatype pyval =
    PStr string
  | PInt int
  | PBool bool
  | PFloat rat
  | PList "pyval list"
  | PDict "(string \<times> pyval) list"
  | PSet "int set"
  | PEvent TraceEvent

text \<open>Truth value testing, as \<open>if x:\<close> does it.\<close>

fun truthy :: "pyval \<Rightarrow> bool" where
  "truthy (PStr s) = (s \<noteq> [])"
| "truthy (PInt i) = (i \<noteq> 0)"
| "truthy (PBool b) = b"
| "truthy (PFloat r) = (r \<noteq> 0)"
| "truthy (PList xs) = (xs \<noteq> [])"
| "truthy (PDict kvs) = (kvs \<noteq> [])"
| "truthy (PSet S) = (S \<noteq> {})"
| "truthy (PEvent e) = True"

fun truthy_opt :: "pyval option \<Rightarrow> bool" where
  "truthy_opt None = False"
| "truthy_opt (Some v) = truthy v"

text \<open>
  Exceptions, with their message. The one \<open>RuntimeError\<close> of the module has the message
  \<open>f"Solver '{solver}' could not be found or installed."\<close>; it carries the value of
  \<open>solver\<close> instead of the formatted text.
\<close>

datatype pyerror =
    AttributeError
  | IndexError
  | ValueError string
  | TypeError string
  | RuntimeError "pyval option"

text \<open>How a call ends when it does not return: an exception, or \<open>sys.exit(code)\<close>.\<close>

datatype failure = Raise pyerror | SysExit int

subsection \<open>The field schema\<close>

text \<open>
  The fields of the dataclass \<open>Config\<close> declared with \<open>arg(...)\<close>, in declaration order.
  The two internal fields \<open>_parent\<close> and \<open>_source\<close> are the constructor arguments of
  \<open>Config\<close> below.
\<close>

definition config_fields :: "string list" where
  "config_fields =
    [''root'', ''config'', ''contract'', ''match_contract'', ''function'', ''match_test'',
     ''panic_error_codes'', ''invariant_depth'', ''loop'', ''width'', ''depth'',
     ''array_lengths'', ''default_array_lengths'', ''default_bytes_lengths'',
     ''storage_layout'', ''ffi'', ''version'', ''coverage_output'', ''verbose'',
     ''statistics'', ''no_status'', ''debug'', ''debug_config'', ''profile_instructions'',
     ''json_output'', ''minimal_json_output'', ''print_steps'', ''print_mem'',
     ''print_states'', ''print_success_states'', ''print_failed_states'',
     ''print_blocked_states'', ''print_setup_states'', ''print_full_model'', ''early_exit'',
     ''dump_smt_queries'', ''dump_smt_directory'', ''disable_gc'', ''trace_memory'',
     ''trace_events'', ''forge_build_out'', ''solver'', ''smt_exp_by_const'',
     ''solver_timeout_branching'', ''solver_timeout_assertion'', ''solver_max_memory'',
     ''solver_command'', ''solver_threads'', ''cache_solver'', ''symbolic_jump'',
     ''flamegraph'', ''test_parallel'', ''solver_parallel'', ''log'',
     ''uninterpreted_unknown_calls'', ''return_size_of_unknown_calls'']"

definition internal_fields :: "string list" where
  "internal_fields = [''_parent'', ''_source'']"

subsection \<open>Layers and the precedence lookup\<close>

text \<open>
  A frozen \<open>Config\<close> object: its parent (\<open>None\<close> at the root), its source, and the value
  of every field, \<open>None\<close> where the layer leaves the field unset.
\<close>

datatype config =
  Config (parent: "config option") (source: ConfigSource) (attrs: "string \<Rightarrow> pyval option")

text \<open>
  \<open>object.__getattribute__(current, name)\<close> for the name of a field. A name that is no
  attribute raises \<open>AttributeError\<close>; the internal fields, the methods and the attributes
  inherited from \<open>object\<close> are not configuration fields and are left out of the model.
\<close>

definition getattribute :: "config \<Rightarrow> string \<Rightarrow> pyerror + pyval option" where
  "getattribute c name =
     (if name \<in> set config_fields then Inr (attrs c name) else Inl AttributeError)"

text \<open>
  The \<open>while current is not None\<close> loop of \<open>value_with_source\<close>, with the pair
  \<open>(best_value, best_source)\<close> as accumulator.
\<close>

fun walk :: "string \<Rightarrow> config option \<Rightarrow> pyval option \<times> ConfigSource
    \<Rightarrow> pyerror + (pyval option \<times> ConfigSource)" where
  "walk name None best = Inr best"
| "walk name (Some (Config p s f)) (best_value, best_source) =
     (case getattribute (Config p s f) name of
        Inl e \<Rightarrow> Inl e
      | Inr v \<Rightarrow>
          walk name p
            (if v \<noteq> None \<and> source_value s > source_value best_source
             then (v, s) else (best_value, best_source)))"

definition value_with_source :: "config \<Rightarrow> string \<Rightarrow> pyerror + (pyval option \<times> ConfigSource)" where
  "value_with_source self name = walk name (Some self) (None, void)"

text \<open>The layers of a configuration, from the leaf to the root.\<close>

fun chain :: "config \<Rightarrow> config list" where
  "chain (Config None s f) = [Config None s f]"
| "chain (Config (Some p) s f) = Config (Some p) s f # chain p"

text \<open>The chain without the layers that leave \<open>name\<close> unset.\<close>

fun strip_unset :: "string \<Rightarrow> config option \<Rightarrow> config option" where
  "strip_unset name None = None"
| "strip_unset name (Some (Config p s f)) =
     (if f name = None then strip_unset name p
      else Some (Config (strip_unset name p) s f))"

definition chain_opt :: "config option \<Rightarrow> config list" where
  "chain_opt co = (case co of None \<Rightarrow> [] | Some c \<Rightarrow> chain c)"

text \<open>
  Two auxiliary predicates for the loop invariant: no layer of \<open>ls\<close> sets \<open>name\<close> at a
  source above \<open>bs\<close>; and \<open>(v, s)\<close> is the value and source of the first layer of \<open>ls\<close>
  among those that set \<open>name\<close> at the highest source, that source being above \<open>bs\<close>.
\<close>

definition quiet :: "string \<Rightarrow> config list \<Rightarrow> ConfigSource \<Rightarrow> bool" where
  "quiet name ls bs \<longleftrightarrow>
     (\<forall>l\<in>set ls. attrs l name = None \<or> source_value (source l) \<le> source_value bs)"

definition beats ::
    "string \<Rightarrow> config list \<Rightarrow> ConfigSource \<Rightarrow> pyval option \<Rightarrow> ConfigSource \<Rightarrow> bool" where
  "beats name ls bs v s \<longleftrightarrow>
     (\<exists>pre l post. ls = pre @ l # post \<and> attrs l name = v \<and> v \<noteq> None \<and> source l = s
        \<and> source_value bs < source_value s
        \<and> (\<forall>m\<in>set pre. attrs m name \<noteq> None \<longrightarrow> source_value (source m) < source_value s)
        \<and> (\<forall>m\<in>set post. attrs m name \<noteq> None \<longrightarrow> source_value (source m) \<le> source_value s))"

subsection \<open>Strings\<close>

text \<open>
  The ASCII characters for which \<open>str.isspace\<close> holds: tab, line feed, vertical tab,
  form feed, carriage return, the four separators \<open>0x1c\<close> to \<open>0x1f\<close>, and the space.
\<close>

definition is_space :: "char \<Rightarrow> bool" where
  "is_space c \<longleftrightarrow>
     c \<in> set [CHR 0x09, CHR 0x0A, CHR 0x0B, CHR 0x0C, CHR 0x0D,
               CHR 0x1C, CHR 0x1D, CHR 0x1E, CHR 0x1F, CHR '' '']"

text \<open>\<open>s.strip()\<close>\<close>

definition py_strip :: "string \<Rightarrow> string" where
  "py_strip s = rev (dropWhile is_space (rev (dropWhile is_space s)))"

text \<open>
  \<open>s.split()\<close>: the maximal runs of characters that are not whitespace. \<open>cur\<close> is the
  run being read.
\<close>

fun split_ws_from :: "string \<Rightarrow> string \<Rightarrow> string list" where
  "split_ws_from cur [] = (if cur = [] then [] else [cur])"
| "split_ws_from cur (c # cs) =
     (if is_space c
      then (if cur = [] then split_ws_from [] cs else cur # split_ws_from [] cs)
      else split_ws_from (cur @ [c]) cs)"

definition py_split :: "string \<Rightarrow> string list" where
  "py_split s = split_ws_from [] s"

text \<open>\<open>s.split(sep)\<close> for a separator of one character: always at least one piece.\<close>

fun split_on :: "char \<Rightarrow> string \<Rightarrow> string list" where
  "split_on sep [] = [[]]"
| "split_on sep (c # cs) =
     (if c = sep then [] # split_on sep cs
      else (case split_on sep cs of
              [] \<Rightarrow> [[c]]
            | w # ws \<Rightarrow> (c # w) # ws))"

text \<open>\<open>sep.join(xs)\<close>\<close>

fun join :: "string \<Rightarrow> string list \<Rightarrow> string" where
  "join sep [] = []"
| "join sep [x] = x"
| "join sep (x # y # ys) = x @ sep @ join sep (y # ys)"

text \<open>A text between single quotes, as the interpreter's messages show a name.\<close>

definition quoted :: "string \<Rightarrow> string" where
  "quoted k = [CHR 0x27] @ k @ [CHR 0x27]"

subsection \<open>Numbers as text\<close>

definition is_digit :: "char \<Rightarrow> bool" where
  "is_digit c \<longleftrightarrow> c \<in> set ''0123456789''"

text \<open>The value of a digit in the bases up to 16, as \<open>int(x, base)\<close> reads it.\<close>

definition digit_value :: "char \<Rightarrow> nat option" where
  "digit_value c = map_of
     [(CHR ''0'', 0), (CHR ''1'', 1), (CHR ''2'', 2), (CHR ''3'', 3), (CHR ''4'', 4),
      (CHR ''5'', 5), (CHR ''6'', 6), (CHR ''7'', 7), (CHR ''8'', 8), (CHR ''9'', 9),
      (CHR ''a'', 10), (CHR ''b'', 11), (CHR ''c'', 12), (CHR ''d'', 13), (CHR ''e'', 14),
      (CHR ''f'', 15), (CHR ''A'', 10), (CHR ''B'', 11), (CHR ''C'', 12), (CHR ''D'', 13),
      (CHR ''E'', 14), (CHR ''F'', 15)] c"

definition is_digit_of :: "nat \<Rightarrow> char \<Rightarrow> bool" where
  "is_digit_of base c = (case digit_value c of None \<Rightarrow> False | Some d \<Rightarrow> d < base)"

text \<open>The digit that \<open>str\<close> and the format \<open>x\<close> print for a value below 16.\<close>

definition to_digit :: "nat \<Rightarrow> char" where
  "to_digit d = ''0123456789abcdef'' ! d"

function digits_of :: "nat \<Rightarrow> nat \<Rightarrow> string" where
  "digits_of base n =
     (if n < base \<or> base < 2 then [to_digit n]
      else digits_of base (n div base) @ [to_digit (n mod base)])"
  by pat_completeness auto
termination
  by (relation "measure snd") auto

declare digits_of.simps [simp del]

text \<open>
  The digits of an integer literal: underscores may stand between two digits, one at a
  time, so every piece between underscores is a non-empty run of digits of the base.
\<close>

definition digit_groups_ok :: "nat \<Rightarrow> string \<Rightarrow> bool" where
  "digit_groups_ok base s =
     list_all (\<lambda>g. g \<noteq> [] \<and> list_all (is_digit_of base) g) (split_on (CHR ''_'') s)"

definition digits_value :: "nat \<Rightarrow> string \<Rightarrow> nat" where
  "digits_value base s =
     foldl (\<lambda>acc c. acc * base + (case digit_value c of None \<Rightarrow> 0 | Some d \<Rightarrow> d)) 0
       (filter (\<lambda>c. c \<noteq> CHR ''_'') s)"

definition parse_digits :: "nat \<Rightarrow> string \<Rightarrow> nat option" where
  "parse_digits base s = (if digit_groups_ok base s then Some (digits_value base s) else None)"

text \<open>An optional sign in front: \<open>(negative, rest)\<close>.\<close>

fun split_sign :: "string \<Rightarrow> bool \<times> string" where
  "split_sign [] = (False, [])"
| "split_sign (c # cs) =
     (if c = CHR ''-'' then (True, cs) else if c = CHR ''+'' then (False, cs) else (False, c # cs))"

definition signed :: "bool \<Rightarrow> nat \<Rightarrow> int" where
  "signed negative n = (if negative then - int n else int n)"

text \<open>
  \<open>int(x)\<close> of a string: surrounding whitespace is dropped, then a sign and decimal
  digits. The message of the \<open>ValueError\<close> is abridged. The interpreter's limit on the
  number of digits of a conversion is not modelled.
\<close>

definition py_int :: "string \<Rightarrow> pyerror + int" where
  "py_int x =
     (case split_sign (py_strip x) of (negative, body) \<Rightarrow>
        (case parse_digits 10 body of
           None \<Rightarrow> Inl (ValueError ''invalid literal for int() with base 10'')
         | Some n \<Rightarrow> Inr (signed negative n)))"

text \<open>
  \<open>int(x, 0)\<close>: the base is read from the prefix, \<open>0x\<close>, \<open>0o\<close> or \<open>0b\<close> in either case,
  after which one underscore may come first; without a prefix the literal is decimal,
  and a decimal literal that starts with \<open>0\<close> must be zero.
\<close>

definition after_prefix :: "nat \<Rightarrow> string \<Rightarrow> nat option" where
  "after_prefix base r =
     parse_digits base (case r of [] \<Rightarrow> [] | c # cs \<Rightarrow> if c = CHR ''_'' then cs else c # cs)"

fun literal_value :: "string \<Rightarrow> nat option" where
  "literal_value (c # p # r) =
     (if c = CHR ''0'' \<and> (p = CHR ''x'' \<or> p = CHR ''X'') then after_prefix 16 r
      else if c = CHR ''0'' \<and> (p = CHR ''o'' \<or> p = CHR ''O'') then after_prefix 8 r
      else if c = CHR ''0'' \<and> (p = CHR ''b'' \<or> p = CHR ''B'') then after_prefix 2 r
      else (case parse_digits 10 (c # p # r) of
              None \<Rightarrow> None
            | Some n \<Rightarrow> if c = CHR ''0'' \<and> n \<noteq> 0 then None else Some n))"
| "literal_value s = parse_digits 10 s"

definition py_int0 :: "string \<Rightarrow> pyerror + int" where
  "py_int0 x =
     (case split_sign (py_strip x) of (negative, body) \<Rightarrow>
        (case literal_value body of
           None \<Rightarrow> Inl (ValueError ''invalid literal for int() with base 0'')
         | Some n \<Rightarrow> Inr (signed negative n)))"

text \<open>\<open>str(v)\<close> of an integer.\<close>

definition py_str_int :: "int \<Rightarrow> string" where
  "py_str_int v = (if v < 0 then CHR ''-'' # digits_of 10 (nat (- v)) else digits_of 10 (nat v))"

text \<open>
  The format \<open>{v:02x}\<close>: lower-case hexadecimal, the sign first, filled with zeros
  after the sign up to the width 2.
\<close>

definition format_02x :: "int \<Rightarrow> string" where
  "format_02x v =
     (if v < 0 then CHR ''-'' # digits_of 16 (nat (- v))
      else (let d = digits_of 16 (nat v) in if length d < 2 then CHR ''0'' # d else d))"

text \<open>\<open>int(r)\<close> of a float: rounding towards zero.\<close>

definition py_trunc :: "rat \<Rightarrow> int" where
  "py_trunc r = (if r < 0 then - \<lfloor>- r\<rfloor> else \<lfloor>r\<rfloor>)"

subsection \<open>The value codecs\<close>

text \<open>\<open>ensure_non_empty\<close>, for a list and for a set.\<close>

definition ensure_non_empty :: "'a list \<Rightarrow> pyerror + 'a list" where
  "ensure_non_empty values =
     (if values = [] then Inl (ValueError ''required a non-empty list'') else Inr values)"

definition ensure_non_empty_set :: "'a set \<Rightarrow> pyerror + 'a set" where
  "ensure_non_empty_set values =
     (if values = {} then Inl (ValueError ''required a non-empty list'') else Inr values)"

text \<open>\<open>parse_csv\<close> with the default separator: the pieces, stripped, the empty ones left out.\<close>

definition parse_csv :: "string \<Rightarrow> string list" where
  "parse_csv values = filter (\<lambda>x. x \<noteq> []) (map py_strip (split_on (CHR '','') values))"

text \<open>A list comprehension over a conversion that may raise: the first exception ends it.\<close>

fun traverse :: "('a \<Rightarrow> pyerror + 'b) \<Rightarrow> 'a list \<Rightarrow> pyerror + 'b list" where
  "traverse f [] = Inr []"
| "traverse f (x # xs) =
     (case f x of
        Inl e \<Rightarrow> Inl e
      | Inr y \<Rightarrow> (case traverse f xs of Inl e \<Rightarrow> Inl e | Inr ys \<Rightarrow> Inr (y # ys)))"

text \<open>\<open>ParseCSVInt\<close>\<close>

definition ParseCSVInt_parse :: "string \<Rightarrow> pyerror + int list" where
  "ParseCSVInt_parse values =
     (case traverse py_int (parse_csv values) of
        Inl e \<Rightarrow> Inl e
      | Inr xs \<Rightarrow> ensure_non_empty xs)"

definition ParseCSVInt_unparse :: "int list \<Rightarrow> string" where
  "ParseCSVInt_unparse values = join '','' (map py_str_int values)"

text \<open>
  \<open>ParseCSVTraceEvent\<close>: \<open>TraceEvent(x)\<close> finds the member by its value; the \<open>ValueError\<close>
  of an unknown value is replaced by one that lists the valid values.
\<close>

fun event_value :: "TraceEvent \<Rightarrow> string" where
  "event_value LOG = ''LOG''"
| "event_value SSTORE = ''SSTORE''"
| "event_value SLOAD = ''SLOAD''"

definition TraceEvent_of :: "string \<Rightarrow> pyerror + TraceEvent" where
  "TraceEvent_of x =
     (case find (\<lambda>e. event_value e = x) [LOG, SSTORE, SLOAD] of
        None \<Rightarrow> Inl (ValueError (quoted x @ '' is not a valid TraceEvent''))
      | Some e \<Rightarrow> Inr e)"

definition ParseCSVTraceEvent_parse :: "string \<Rightarrow> pyerror + TraceEvent list" where
  "ParseCSVTraceEvent_parse values =
     (case traverse TraceEvent_of (parse_csv values) of
        Inl (ValueError e) \<Rightarrow>
          Inl (ValueError (''the list of valid trace events is: ''
                 @ join '', '' (map event_value [LOG, SSTORE, SLOAD])))
      | Inl e \<Rightarrow> Inl e
      | Inr xs \<Rightarrow> Inr xs)"

definition ParseCSVTraceEvent_unparse :: "TraceEvent list \<Rightarrow> string" where
  "ParseCSVTraceEvent_unparse values = join '','' (map event_value values)"

text \<open>
  \<open>ParseErrorCodes\<close>. \<open>unparse\<close> takes the elements of the set in the order in which the
  set iterates, an order that the language leaves open.
\<close>

definition ParseErrorCodes_parse :: "string \<Rightarrow> pyerror + int set" where
  "ParseErrorCodes_parse values =
     (let values = py_strip values in
      if values = ''*'' then Inr {}
      else (case traverse py_int0 (parse_csv values) of
              Inl e \<Rightarrow> Inl e
            | Inr xs \<Rightarrow> ensure_non_empty_set (set xs)))"

definition ParseErrorCodes_unparse :: "int list \<Rightarrow> string" where
  "ParseErrorCodes_unparse values =
     (if values = [] then ''*'' else join '','' (map (\<lambda>v. ''0x'' @ format_02x v) values))"

text \<open>
  \<open>ParseArrayLengths\<close>. The two regular expressions are read from left to right over a
  text without whitespace. One item is the pattern
  \<open>([^=,\{\}]+)=(?:\{([\d,]+)\}|(\d+))\<close>: a name, the longest run of characters other
  than \<open>=\<close>, \<open>,\<close>, \<open>{\<close> and \<open>}\<close>, which must be followed by \<open>=\<close>; then either \<open>{\<close>, the
  longest run of digits and commas, and \<open>}\<close>, or the longest run of digits. No shorter
  run can match, because the character after a longest run is not of the run while
  the pattern asks, at that place, for a character that is not of the run either.
  \<open>match_item\<close> gives the three groups (the group that took no part is empty, as in
  \<open>re.findall\<close>) and the text after the item.
\<close>

definition name_char :: "char \<Rightarrow> bool" where
  "name_char c \<longleftrightarrow> c \<notin> set ''=,{}''"

definition sizes_char :: "char \<Rightarrow> bool" where
  "sizes_char c \<longleftrightarrow> is_digit c \<or> c = CHR '',''"

definition match_sizes :: "string \<Rightarrow> ((string \<times> string) \<times> string) option" where
  "match_sizes s =
     (case s of
        [] \<Rightarrow> None
      | c # r \<Rightarrow>
          if c = CHR ''{''
          then (case dropWhile sizes_char r of
                  [] \<Rightarrow> None
                | d # rest \<Rightarrow>
                    if d = CHR ''}'' \<and> takeWhile sizes_char r \<noteq> []
                    then Some ((takeWhile sizes_char r, []), rest) else None)
          else if takeWhile is_digit s \<noteq> []
          then Some (([], takeWhile is_digit s), dropWhile is_digit s)
          else None)"

definition match_item :: "string \<Rightarrow> ((string \<times> string \<times> string) \<times> string) option" where
  "match_item s =
     (if takeWhile name_char s = [] then None
      else (case dropWhile name_char s of
              [] \<Rightarrow> None
            | c # r \<Rightarrow>
                if c = CHR ''='' then
                  (case match_sizes r of
                     None \<Rightarrow> None
                   | Some ((sizes_lst, single_size), rest) \<Rightarrow>
                       Some ((takeWhile name_char s, sizes_lst, single_size), rest))
                else None))"

text \<open>
  The check \<open>re.match(r"^([^=,\{\}]+=(\{[\d,]+\}|\d+)(,|$))*$", values)\<close>: items, each
  followed by a comma or by the end of the text, up to the end of the text.
\<close>

function (sequential) match_format :: "string \<Rightarrow> bool" where
  "match_format [] = True"
| "match_format s =
     (case match_item s of
        None \<Rightarrow> False
      | Some (groups, rest) \<Rightarrow>
          (case rest of
             [] \<Rightarrow> True
           | c # rest' \<Rightarrow> c = CHR '','' \<and> match_format rest'))"
  by pat_completeness auto
termination
proof (relation "measure length")
  show "wf (measure length)" by simp
next
  fix v va x2 x y xa ya
  assume a: "match_item (v # va) = Some x2" "(x, y) = x2" "y = xa # ya"
  let ?s = "v # va"
  from a obtain r sz where r: "dropWhile name_char ?s = CHR ''='' # r"
      and m: "match_sizes r = Some (sz, xa # ya)"
    by (auto simp: match_item_def split: if_splits list.splits option.splits)
  have "length (dropWhile name_char ?s) \<le> length ?s" by (rule length_dropWhile_le)
  with r have l1: "length r < length ?s" by simp
  have "length (xa # ya) \<le> length r"
  proof (cases r)
    case Nil
    with m show ?thesis by (simp add: match_sizes_def)
  next
    case (Cons c r')
    show ?thesis
    proof (cases "c = CHR ''{''")
      case True
      with m Cons have "\<exists>d. dropWhile sizes_char r' = d # xa # ya"
        by (auto simp: match_sizes_def split: if_splits list.splits)
      then have "length (xa # ya) < length (dropWhile sizes_char r')" by auto
      also have "\<dots> \<le> length r'" by (rule length_dropWhile_le)
      finally show ?thesis using Cons by simp
    next
      case False
      with m Cons have "dropWhile is_digit r = xa # ya"
        by (auto simp: match_sizes_def split: if_splits)
      then have "length (xa # ya) = length (dropWhile is_digit r)" by simp
      also have "\<dots> \<le> length r" by (rule length_dropWhile_le)
      finally show ?thesis .
    qed
  qed
  with l1 show "(ya, v # va) \<in> measure length" by simp
qed

text \<open>
  \<open>re.findall\<close> of the item pattern: the groups of the matches found from left to
  right; where no item starts, the search moves on by one character.
\<close>

function findall_items :: "string \<Rightarrow> (string \<times> string \<times> string) list" where
  "findall_items [] = []"
| "findall_items (c # cs) =
     (case match_item (c # cs) of
        None \<Rightarrow> findall_items cs
      | Some (groups, rest) \<Rightarrow> groups # findall_items rest)"
  by pat_completeness auto
termination
proof (relation "measure length")
  show "wf (measure length)" by simp
next
  fix c :: char and cs
  show "(cs, c # cs) \<in> measure length" by simp
next
  fix c cs x2 x y
  assume a: "match_item (c # cs) = Some x2" "(x, y) = x2"
  let ?s = "c # cs"
  from a obtain r sz where r: "dropWhile name_char ?s = CHR ''='' # r"
      and m: "match_sizes r = Some (sz, y)"
    by (auto simp: match_item_def split: if_splits list.splits option.splits)
  have "length (dropWhile name_char ?s) \<le> length ?s" by (rule length_dropWhile_le)
  with r have l1: "length r < length ?s" by simp
  have "length y \<le> length r"
  proof (cases r)
    case Nil
    with m show ?thesis by (simp add: match_sizes_def)
  next
    case (Cons d r')
    show ?thesis
    proof (cases "d = CHR ''{''")
      case True
      with m Cons have "\<exists>e. dropWhile sizes_char r' = e # y"
        by (auto simp: match_sizes_def split: if_splits list.splits)
      then have "length y < length (dropWhile sizes_char r')" by auto
      also have "\<dots> \<le> length r'" by (rule length_dropWhile_le)
      finally show ?thesis using Cons by simp
    next
      case False
      with m Cons have "dropWhile is_digit r = y"
        by (auto simp: match_sizes_def split: if_splits)
      then have "length y = length (dropWhile is_digit r)" by simp
      also have "\<dots> \<le> length r" by (rule length_dropWhile_le)
      finally show ?thesis .
    qed
  qed
  with l1 show "(y, c # cs) \<in> measure length" by simp
qed

text \<open>
  Storing into a dictionary: a key that is present keeps its place and takes the new
  value, a new key goes to the end.
\<close>

fun dict_set :: "'k \<Rightarrow> 'v \<Rightarrow> ('k \<times> 'v) list \<Rightarrow> ('k \<times> 'v) list" where
  "dict_set k v [] = [(k, v)]"
| "dict_set k v ((k', v') # kvs) =
     (if k' = k then (k, v) # kvs else (k', v') # dict_set k v kvs)"

text \<open>
  The dictionary comprehension over the matches: \<open>sizes_lst or single_size\<close> is the
  group that is not empty; an empty list of sizes raises.
\<close>

fun lengths_of_matches ::
    "(string \<times> string \<times> string) list \<Rightarrow> (string \<times> int list) list
     \<Rightarrow> pyerror + (string \<times> int list) list" where
  "lengths_of_matches [] acc = Inr acc"
| "lengths_of_matches ((name, sizes_lst, single_size) # ms) acc =
     (case traverse py_int (parse_csv (if sizes_lst \<noteq> [] then sizes_lst else single_size)) of
        Inl e \<Rightarrow> Inl e
      | Inr xs \<Rightarrow>
          (case ensure_non_empty xs of
             Inl e \<Rightarrow> Inl e
           | Inr sizes \<Rightarrow> lengths_of_matches ms (dict_set (py_strip name) sizes acc)))"

definition ParseArrayLengths_parse :: "string option \<Rightarrow> pyerror + (string \<times> int list) list" where
  "ParseArrayLengths_parse values =
     (case values of
        None \<Rightarrow> Inr []
      | Some v \<Rightarrow>
          if v = [] then Inr []
          else (let v = filter (\<lambda>c. \<not> is_space c) v in
                if \<not> match_format v
                then Inl (ValueError (''invalid array lengths format: '' @ v))
                else lengths_of_matches (findall_items v) []))"

definition ParseArrayLengths_unparse :: "(string \<times> int list) list \<Rightarrow> string" where
  "ParseArrayLengths_unparse values =
     join '','' (map (\<lambda>(k, vs). k @ ''={'' @ join '','' (map py_str_int vs) @ ''}'') values)"

text \<open>
  Modelled from the spec: \<open>halmos.utils.parse_time\<close>, which \<open>ParseTimeout.parse\<close> calls, is
  not part of \<open>config.py\<close>. The spec describes it as \<open>parseDuration(text, defaultUnit) ->
  numeric seconds\<close>, a duration with a unit, and the help text of the timeout fields
  names the units (\<open>'200ms', '5s', '2m', '1h'\<close>). The model reads a decimal number
  without a fraction and an optional unit; other texts are rejected here, whatever the
  real function does with them.
\<close>

definition unit_seconds :: "string \<Rightarrow> rat option" where
  "unit_seconds u =
     (if u = ''ms'' then Some (1 / 1000)
      else if u = ''s'' then Some 1
      else if u = ''m'' then Some 60
      else if u = ''h'' then Some 3600
      else None)"

definition parse_time :: "string \<Rightarrow> string \<Rightarrow> pyerror + rat" where
  "parse_time arg default_unit =
     (let number = takeWhile is_digit arg; unit = dropWhile is_digit arg in
      if number = [] then Inl (ValueError (''Could not parse time '' @ arg))
      else (case unit_seconds (if unit = [] then default_unit else unit) of
              None \<Rightarrow> Inl (ValueError (''Could not parse time '' @ arg))
            | Some m \<Rightarrow> Inr (of_nat (digits_value 10 number) * m)))"

text \<open>
  \<open>ParseTimeout\<close>: the resolved value is a number of seconds. \<open>parse\<close> is a call of the
  external \<open>parse_time\<close> with the default unit \<open>ms\<close>; the function called is a parameter,
  and the model above is one instance of it.
\<close>

definition ParseTimeout_parse ::
    "(string \<Rightarrow> string \<Rightarrow> pyerror + rat) \<Rightarrow> string \<Rightarrow> pyerror + rat" where
  "ParseTimeout_parse parse_time_fn values = parse_time_fn values ''ms''"

definition ParseTimeout_unparse :: "rat \<Rightarrow> string" where
  "ParseTimeout_unparse v =
     (if v < 1 then py_str_int (py_trunc (v * 1000)) @ ''ms''
      else py_str_int (py_trunc v) @ ''s'')"

text \<open>
  The values that \<open>ParseArrayLengths.parse\<close> can return: distinct names, not empty, made
  of characters that are neither whitespace nor one of \<open>=\<close>, \<open>,\<close>, \<open>{\<close>, \<open>}\<close>, each with a
  list of sizes that is not empty and holds no negative number.
\<close>

definition lengths_domain :: "(string \<times> int list) list \<Rightarrow> bool" where
  "lengths_domain m \<longleftrightarrow>
     distinct (map fst m) \<and>
     list_all (\<lambda>(k, vs). k \<noteq> [] \<and> list_all (\<lambda>c. name_char c \<and> \<not> is_space c) k
                 \<and> vs \<noteq> [] \<and> list_all (\<lambda>v. 0 \<le> v) vs) m"

text \<open>
  The text that \<open>unparse\<close> writes for one entry of the map, and what the domain asks of
  one entry.
\<close>

definition entry_text :: "string \<times> int list \<Rightarrow> string" where
  "entry_text e = fst e @ ''={'' @ join '','' (map py_str_int (snd e)) @ ''}''"

definition entry_ok :: "string \<times> int list \<Rightarrow> bool" where
  "entry_ok e \<longleftrightarrow> fst e \<noteq> [] \<and> (\<forall>c\<in>set (fst e). name_char c \<and> \<not> is_space c)
     \<and> snd e \<noteq> [] \<and> (\<forall>v\<in>set (snd e). 0 \<le> v)"

text \<open>What the groups of a match of the item pattern are made of, in a text without whitespace.\<close>

definition groups_ok :: "string \<times> string \<times> string \<Rightarrow> bool" where
  "groups_ok g \<longleftrightarrow>
     (case g of (name, lst, single) \<Rightarrow>
        name \<noteq> [] \<and> (\<forall>c\<in>set name. name_char c \<and> \<not> is_space c) \<and>
        (\<forall>c\<in>set lst. sizes_char c) \<and> (\<forall>c\<in>set single. is_digit c))"

text \<open>
  The grammar of the array lengths, as the pattern of the format check
  \<open>^([^=,\{\}]+=(\{[\d,]+\}|\d+)(,|$))*$\<close> and the comment above it describe it
  (\<open>name1=sizes1,name2=sizes2,...\<close>): an item is a name, the sign \<open>=\<close>, and either digits
  and commas between braces or bare digits; a text is a sequence of items, each followed
  by a comma or by the end of the text. \<open>item_text g t\<close> says that \<open>t\<close> is the text of the
  item with the groups \<open>g\<close>: the name, the text between the braces and the bare digits,
  the one of the two that is not there being empty. \<open>items_text gs s\<close> says that \<open>s\<close> is
  the text of the items \<open>gs\<close>, in this order.
\<close>

inductive item_text :: "string \<times> string \<times> string \<Rightarrow> string \<Rightarrow> bool" where
  braces: "name \<noteq> [] \<Longrightarrow> list_all name_char name \<Longrightarrow> lst \<noteq> [] \<Longrightarrow> list_all sizes_char lst
     \<Longrightarrow> item_text (name, lst, []) (name @ ''={'' @ lst @ ''}'')"
| bare: "name \<noteq> [] \<Longrightarrow> list_all name_char name \<Longrightarrow> single \<noteq> [] \<Longrightarrow> list_all is_digit single
     \<Longrightarrow> item_text (name, [], single) (name @ ''='' @ single)"

inductive items_text :: "(string \<times> string \<times> string) list \<Rightarrow> string \<Rightarrow> bool" where
  none: "items_text [] []"
| final: "item_text g t \<Longrightarrow> items_text [g] t"
| more: "item_text g t \<Longrightarrow> items_text gs rest \<Longrightarrow> items_text (g # gs) (t @ '','' @ rest)"

code_pred item_text .

code_pred items_text .

definition well_formed :: "string \<Rightarrow> bool" where
  "well_formed s \<longleftrightarrow> (\<exists>gs. items_text gs s)"

text \<open>
  The sizes that an item stands for: the numbers between the commas, an empty piece
  between two commas standing for nothing.
\<close>

definition item_sizes :: "string \<times> string \<times> string \<Rightarrow> int list" where
  "item_sizes g =
     (case g of (name, lst, single) \<Rightarrow>
        map (\<lambda>piece. int (digits_value 10 piece))
          (filter (\<lambda>piece. piece \<noteq> []) (split_on (CHR '','') (lst @ single))))"

subsection \<open>Warnings\<close>

text \<open>
  Modelled from the spec: \<open>halmos.logs.warn\<close> is imported, its code is not part of
  \<open>config.py\<close>. A warning is a non-fatal message; with \<open>allow_duplicate=False\<close> a message
  that was already printed is not printed again (``deduplicated so repeated resolution
  does not spam''), and a call that does not pass \<open>allow_duplicate\<close> always prints. The
  state is the list of the messages printed so far.
\<close>

definition warn :: "string \<Rightarrow> bool \<Rightarrow> string list \<Rightarrow> string list" where
  "warn text allow_duplicate printed =
     (if \<not> allow_duplicate \<and> text \<in> set printed then printed else printed @ [text])"

subsection \<open>Building a layer\<close>

text \<open>
  The keyword arguments \<open>**overrides\<close>: an ordered dictionary, a value may be \<open>None\<close> (as
  in \<open>vars(namespace)\<close> for a flag that was not given).
\<close>

type_synonym kwargs = "(string \<times> pyval option) list"

text \<open>Every field of a new object is the keyword argument of its name, \<open>None\<close> by default.\<close>

definition kwargs_attrs :: "kwargs \<Rightarrow> string \<Rightarrow> pyval option" where
  "kwargs_attrs kw name = (case map_of kw name of None \<Rightarrow> None | Some v \<Rightarrow> v)"

text \<open>
  The call \<open>Config(_parent=self, _source=source, **overrides)\<close> of the generated
  \<open>__init__\<close>. The interpreter raises \<open>TypeError\<close> for the first key of \<open>overrides\<close> that
  repeats \<open>_parent\<close> or \<open>_source\<close> (when the keyword arguments are merged), and
  otherwise for the first key that is not a parameter of \<open>__init__\<close>; the message texts
  are CPython's.
\<close>

definition Config_init :: "config option \<Rightarrow> ConfigSource \<Rightarrow> kwargs \<Rightarrow> pyerror + config" where
  "Config_init p s overrides =
     (case find (\<lambda>k. k \<in> set internal_fields) (map fst overrides) of
        Some k \<Rightarrow>
          Inl (TypeError (''halmos.config.Config() got multiple values for keyword argument ''
                 @ quoted k))
      | None \<Rightarrow>
         (case find (\<lambda>k. k \<notin> set config_fields) (map fst overrides) of
            Some k \<Rightarrow>
              Inl (TypeError (''Config.__init__() got an unexpected keyword argument ''
                     @ quoted k))
          | None \<Rightarrow> Inr (Config p s (kwargs_attrs overrides))))"

text \<open>
  The parameters of the method \<open>with_overrides(self, source, **overrides)\<close> that are
  already bound when the keyword arguments are read.
\<close>

definition method_parameters :: "string list" where
  "method_parameters = [''self'', ''source'']"

text \<open>
  \<open>with_overrides\<close>: the printed warnings go in and come out. A key of \<open>overrides\<close> that
  is the name of a parameter of the method itself makes the interpreter raise \<open>TypeError\<close>
  while it binds the arguments of the call, for the first such key; this is before the
  \<open>try\<close>, so nothing is printed and the exception leaves the method. Inside the \<open>try\<close>,
  on \<open>TypeError\<close>, the last whitespace-separated token of the exception text is reported
  and the process exits with status 2.
\<close>

definition with_overrides ::
    "config \<Rightarrow> ConfigSource \<Rightarrow> kwargs \<Rightarrow> string list \<Rightarrow> string list \<times> (failure + config)" where
  "with_overrides self src overrides printed =
     (case find (\<lambda>k. k \<in> set method_parameters) (map fst overrides) of
        Some k \<Rightarrow>
          (printed,
           Inl (Raise (TypeError (''Config.with_overrides() got multiple values for argument ''
                  @ quoted k))))
      | None \<Rightarrow>
         (case Config_init (Some self) src overrides of
            Inr c \<Rightarrow> (printed, Inr c)
          | Inl (TypeError e) \<Rightarrow>
              (case py_split e of
                 [] \<Rightarrow> (printed, Inl (Raise IndexError))
               | t # ts \<Rightarrow>
                   (warn (''error: unrecognized argument: '' @ last (t # ts)) True printed,
                    Inl (SysExit 2)))
          | Inl e \<Rightarrow> (printed, Inl (Raise e))))"

subsection \<open>The derived solver command\<close>

text \<open>
  \<open>halmos.solvers.get_solver_command\<close> and \<open>shlex.split\<close> are code outside \<open>config.py\<close>;
  they are parameters of the model, and each of them may raise. Each call is recorded,
  with its argument, so that the path taken can be observed: the state of the world is
  the list of warnings printed and the list of external calls made.
\<close>

datatype call = ShlexSplit pyval | GetSolverCommand "pyval option"

record world =
  emitted :: "string list"
  called :: "call list"

type_synonym solver_registry = "pyval option \<Rightarrow> pyerror + string list option"
type_synonym lexer = "pyval \<Rightarrow> pyerror + string list"

definition same_level_warning :: "ConfigSource \<Rightarrow> string" where
  "same_level_warning solver_source =
     ''--solver-command and --solver are both provided at the same precedence level (''
     @ source_name solver_source
     @ ''), --solver-command will be used and --solver will be ignored''"

text \<open>
  The last part of \<open>resolved_solver_command\<close>: the lookup of \<open>--solver <name>\<close>. An
  exception of the registry goes on to the caller; a result that is \<open>None\<close> or empty
  raises \<open>RuntimeError\<close>.
\<close>

definition lookup_solver ::
    "solver_registry \<Rightarrow> pyval option \<Rightarrow> world \<Rightarrow> world \<times> (failure + string list)" where
  "lookup_solver get_solver_command solver w =
     (let w' = w\<lparr>called := called w @ [GetSolverCommand solver]\<rparr> in
      case get_solver_command solver of
        Inl e \<Rightarrow> (w', Inl (Raise e))
      | Inr None \<Rightarrow> (w', Inl (Raise (RuntimeError solver)))
      | Inr (Some command) \<Rightarrow>
          if command = [] then (w', Inl (Raise (RuntimeError solver))) else (w', Inr command))"

text \<open>
  The body of the property \<open>resolved_solver_command\<close>. The override is taken when
  \<open>solver_command\<close> is true, \<open>solver_command_source\<close> is true (an \<open>IntEnum\<close> is true when
  it is not 0) and \<open>solver_command_source >= solver_source\<close>.
\<close>

definition compute_solver_command ::
    "solver_registry \<Rightarrow> lexer \<Rightarrow> config \<Rightarrow> world \<Rightarrow> world \<times> (failure + string list)" where
  "compute_solver_command get_solver_command shlex_split self w =
     (case value_with_source self ''solver'' of
        Inl e \<Rightarrow> (w, Inl (Raise e))
      | Inr (solver, solver_source) \<Rightarrow>
         (case value_with_source self ''solver_command'' of
            Inl e \<Rightarrow> (w, Inl (Raise e))
          | Inr (None, solver_command_source) \<Rightarrow> lookup_solver get_solver_command solver w
          | Inr (Some solver_command, solver_command_source) \<Rightarrow>
              if truthy solver_command
                 \<and> source_value solver_command_source \<noteq> 0
                 \<and> source_value solver_command_source \<ge> source_value solver_source
              then
                (let w1 = (if solver_command_source = solver_source
                           then w\<lparr>emitted := warn (same_level_warning solver_source) False (emitted w)\<rparr>
                           else w);
                     w2 = w1\<lparr>called := called w1 @ [ShlexSplit solver_command]\<rparr>
                 in case shlex_split solver_command of
                      Inl e \<Rightarrow> (w2, Inl (Raise e))
                    | Inr tokens \<Rightarrow> (w2, Inr tokens))
              else lookup_solver get_solver_command solver w))"

text \<open>
  \<open>@cached_property\<close>: the first value returned is stored in the object and returned
  from then on without running the body; an exception stores nothing. The cache of the
  object is part of the state.
\<close>

definition resolved_solver_command ::
    "solver_registry \<Rightarrow> lexer \<Rightarrow> config \<Rightarrow> string list option \<times> world
     \<Rightarrow> (string list option \<times> world) \<times> (failure + string list)" where
  "resolved_solver_command get_solver_command shlex_split self st =
     (case fst st of
        Some command \<Rightarrow> (st, Inr command)
      | None \<Rightarrow>
         (case compute_solver_command get_solver_command shlex_split self (snd st) of
            (w', Inr command) \<Rightarrow> ((Some command, w'), Inr command)
          | (w', Inl e) \<Rightarrow> ((None, w'), Inl e)))"

subsection \<open>Reading the parsed TOML document\<close>





















subsection \<open>Locating the config file\<close>

text \<open>
  The namespace of the two-option parser of \<open>resolve_config_files\<close>: \<open>--root\<close> (a string,
  by default the current directory) and \<open>--config\<close> (a string or \<open>None\<close>).
\<close>

record namespace =
  ns_root :: string
  ns_config :: "string option"

text \<open>
  \<open>argparse\<close> is outside \<open>config.py\<close>: \<open>parse_known_args\<close> is a parameter. It takes the
  defaults declared with \<open>add_argument\<close> and the argument list and gives the namespace,
  or exits (``errors and help flags will cause a system exit'').
\<close>

type_synonym arg_parser = "namespace \<Rightarrow> string list \<Rightarrow> failure + namespace"

text \<open>\<open>os.path.join(a, b)\<close> of two components, on POSIX.\<close>

definition os_path_join :: "string \<Rightarrow> string \<Rightarrow> string" where
  "os_path_join a b =
     (if b \<noteq> [] \<and> hd b = CHR ''/'' then b
      else if a = [] \<or> last a = CHR ''/'' then a @ b
      else a @ ''/'' @ b)"

text \<open>
  \<open>resolve_config_files\<close>; \<open>getcwd\<close> is the value of \<open>os.getcwd()\<close> and \<open>exists\<close> is
  \<open>os.path.exists\<close>. \<open>if args.config:\<close> is true for a string that is not empty.
\<close>

definition resolve_config_files ::
    "arg_parser \<Rightarrow> string \<Rightarrow> (string \<Rightarrow> bool) \<Rightarrow> string list \<Rightarrow> bool \<Rightarrow> failure + string list" where
  "resolve_config_files parse_known_args getcwd exists args include_missing =
     (case parse_known_args \<lparr>ns_root = getcwd, ns_config = None\<rparr> args of
        Inl e \<Rightarrow> Inl e
      | Inr ns \<Rightarrow>
          if (case ns_config ns of None \<Rightarrow> False | Some c \<Rightarrow> c \<noteq> [])
          then Inr (case ns_config ns of None \<Rightarrow> [] | Some c \<Rightarrow> [c])
          else
            (let default_config_path = os_path_join (ns_root ns) ''halmos.toml'' in
             if \<not> include_missing \<and> \<not> exists default_config_path then Inr []
             else Inr [default_config_path]))"

subsection \<open>Example configurations\<close>

text \<open>
  A default layer, a config-file layer that sets \<open>loop\<close>, and a command-line layer that
  sets nothing; a single layer whose source is \<open>void\<close>.
\<close>

definition example_default :: config where
  "example_default = Config None default_source
     (kwargs_attrs [(''loop'', Some (PInt 2)), (''solver'', Some (PStr ''yices'')),
                    (''solver_command'', Some (PStr []))])"

definition example_file :: config where
  "example_file = Config (Some example_default) config_file
     (kwargs_attrs [(''loop'', Some (PInt 4))])"

definition example_cli :: config where
  "example_cli = Config (Some example_file) command_line (kwargs_attrs [])"

definition example_void :: config where
  "example_void = Config None void (kwargs_attrs [(''loop'', Some (PInt 3))])"

text \<open>Stand-ins for the two external functions, for the examples.\<close>

definition example_registry :: solver_registry where
  "example_registry solver =
     (if solver = Some (PStr ''yices'') then Inr (Some [''yices-smt2'', ''--incremental''])
      else Inr None)"

text \<open>A registry that knows no solver.\<close>

definition empty_registry :: solver_registry where
  "empty_registry solver = Inr None"

definition example_lexer :: lexer where
  "example_lexer v = (case v of PStr s \<Rightarrow> Inr (py_split s) | _ \<Rightarrow> Inl AttributeError)"

definition world0 :: world where
  "world0 = \<lparr>emitted = [], called = []\<rparr>"


definition example_command_cli :: config where
  "example_command_cli = Config (Some example_default) command_line
     (kwargs_attrs [(''solver_command'', Some (PStr ''cvc5 --lang smt2''))])"

definition example_empty_command_cli :: config where
  "example_empty_command_cli = Config (Some example_default) command_line
     (kwargs_attrs [(''solver_command'', Some (PStr []))])"

text \<open>
  A stand-in for the parser, for the examples: it knows the long options written in
  full and followed by their value, and the help flags; it skips everything else.
\<close>

fun example_parser :: arg_parser where
  "example_parser ns [] = Inr ns"
| "example_parser ns [a] =
     (if a = ''-h'' \<or> a = ''--help'' then Inl (SysExit 0)
      else if a = ''--root'' \<or> a = ''--config'' then Inl (SysExit 2)
      else Inr ns)"
| "example_parser ns (a # v # rest) =
     (if a = ''-h'' \<or> a = ''--help'' then Inl (SysExit 0)
      else if a = ''--root'' then example_parser (ns\<lparr>ns_root := v\<rparr>) rest
      else if a = ''--config'' then example_parser (ns\<lparr>ns_config := Some v\<rparr>) rest
      else example_parser ns (v # rest))"

text \<open>A file system that holds no file at all.\<close>

definition no_files :: "string \<Rightarrow> bool" where
  "no_files path = False"

section \<open>Properties\<close>

subsection \<open>The precedence lookup\<close>

lemma chain_opt_simps [simp]:
  "chain_opt None = []"
  "chain_opt (Some (Config p s f)) = Config p s f # chain_opt p"
  by (cases p; simp add: chain_opt_def)+

lemma chain_opt_Some: "chain_opt (Some c) = chain c"
  by (simp add: chain_opt_def)

lemma config_option_induct [case_names Root Layer]:
  assumes "P None" and "\<And>p s f. P p \<Longrightarrow> P (Some (Config p s f))"
  shows "P co"
  by (rule strip_unset.induct[where P="\<lambda>_ c. P c" and ?a0.0 = "[]"]) (use assms in auto)

lemma walk_total:
  "name \<in> set config_fields \<Longrightarrow> \<exists>v s. walk name co best = Inr (v, s)"
  by (induction co arbitrary: best rule: config_option_induct)
     (auto simp: getattribute_def split: prod.splits)

lemma walk_strip:
  "name \<in> set config_fields \<Longrightarrow> walk name (strip_unset name co) best = walk name co best"
  by (induction co arbitrary: best rule: config_option_induct)
     (auto simp: getattribute_def split: prod.splits)

lemma quiet_Nil: "quiet name [] bs"
  by (simp add: quiet_def)

lemma quiet_Cons: "quiet name (c # ls) bs \<longleftrightarrow>
   (attrs c name = None \<or> source_value (source c) \<le> source_value bs) \<and> quiet name ls bs"
  by (simp add: quiet_def)

lemma beats_here:
  "attrs c name \<noteq> None \<Longrightarrow> source_value bs < source_value (source c) \<Longrightarrow>
   quiet name ls (source c) \<Longrightarrow> beats name (c # ls) bs (attrs c name) (source c)"
  unfolding beats_def quiet_def
  by (rule exI[of _ "[]"], rule exI[of _ c], rule exI[of _ ls]) auto

lemma beats_later:
  assumes "beats name ls b v s" and "source_value bs \<le> source_value b"
    and "attrs c name \<noteq> None \<Longrightarrow> source_value (source c) \<le> source_value b"
  shows "beats name (c # ls) bs v s"
proof -
  from assms(1) obtain pre l post where h: "ls = pre @ l # post" "attrs l name = v"
      "v \<noteq> None" "source l = s" "source_value b < source_value s"
      "\<forall>m\<in>set pre. attrs m name \<noteq> None \<longrightarrow> source_value (source m) < source_value s"
      "\<forall>m\<in>set post. attrs m name \<noteq> None \<longrightarrow> source_value (source m) \<le> source_value s"
    unfolding beats_def by blast
  have "c # ls = (c # pre) @ l # post" using h(1) by simp
  moreover have
    "\<forall>m\<in>set (c # pre). attrs m name \<noteq> None \<longrightarrow> source_value (source m) < source_value s"
    using h(5,6) assms(3) by auto
  moreover have "source_value bs < source_value s" using h(5) assms(2) by simp
  ultimately show ?thesis unfolding beats_def using h(2,3,4,7) by blast
qed

lemma walk_char:
  assumes "name \<in> set config_fields" and "walk name co (bv, bs) = Inr (v, s)"
  shows "(quiet name (chain_opt co) bs \<longrightarrow> v = bv \<and> s = bs) \<and>
         (\<not> quiet name (chain_opt co) bs \<longrightarrow> beats name (chain_opt co) bs v s)"
  using assms(2)
proof (induction co arbitrary: bv bs rule: config_option_induct)
  case Root
  then show ?case by (simp add: quiet_Nil)
next
  case (Layer p s0 f)
  let ?c = "Config p s0 f"
  show ?case
  proof (cases "f name \<noteq> None \<and> source_value s0 > source_value bs")
    case True
    with Layer.prems assms(1) have w: "walk name p (f name, s0) = Inr (v, s)"
      by (simp add: getattribute_def)
    note ih = Layer.IH[OF w]
    have nq: "\<not> quiet name (chain_opt (Some ?c)) bs" using True by (simp add: quiet_Cons)
    have "beats name (chain_opt (Some ?c)) bs v s"
    proof (cases "quiet name (chain_opt p) s0")
      case True
      with ih have "v = f name" "s = s0" by simp_all
      then show ?thesis
        using beats_here[of ?c name bs "chain_opt p"] True \<open>f name \<noteq> None \<and> _\<close> by simp
    next
      case False
      with ih have "beats name (chain_opt p) s0 v s" by simp
      then show ?thesis using beats_later[of name "chain_opt p" s0 v s bs ?c] True by simp
    qed
    with nq show ?thesis by simp
  next
    case False
    with Layer.prems assms(1) have w: "walk name p (bv, bs) = Inr (v, s)"
      by (auto simp add: getattribute_def)
    note ih = Layer.IH[OF w]
    show ?thesis
    proof (cases "quiet name (chain_opt p) bs")
      case True
      with ih False show ?thesis by (auto simp: quiet_Cons)
    next
      case nq: False
      with ih have "beats name (chain_opt p) bs v s" by simp
      then have "beats name (chain_opt (Some ?c)) bs v s"
        using beats_later[of name "chain_opt p" bs v s bs ?c] False by auto
      with nq show ?thesis by (simp add: quiet_Cons)
    qed
  qed
qed

lemma source_value_void: "source_value s \<le> 0 \<longleftrightarrow> s = void"
  by (cases s) simp_all

lemma source_value_pos: "0 < source_value s \<longleftrightarrow> s \<noteq> void"
  by (cases s) simp_all

text \<open>
  C1. For the name of a configuration field, \<open>value_with_source\<close> returns a pair
  \<open>(v, s)\<close> and never raises. If no layer of the chain sets the field at a source other
  than \<open>void\<close>, the pair is \<open>(None, void)\<close>. Otherwise it is the value and the source of a
  layer \<open>l\<close> of the chain (leaf first) that sets the field at a source other than \<open>void\<close>,
  such that every layer closer to the leaf that sets the field has a strictly lower
  source and every layer further from the leaf that sets the field has a lower or the
  same source: the first layer at the highest source wins. Two chains that differ only
  by layers that leave the field unset give the same result.
\<close>

theorem value_with_source_resolves:
  assumes "name \<in> set config_fields"
  shows "\<exists>v s. value_with_source c name = Inr (v, s) \<and>
    ((\<forall>l\<in>set (chain c). attrs l name = None \<or> source l = void) \<longrightarrow> v = None \<and> s = void) \<and>
    (\<not> (\<forall>l\<in>set (chain c). attrs l name = None \<or> source l = void) \<longrightarrow>
       (\<exists>pre l post. chain c = pre @ l # post \<and> attrs l name = v \<and> v \<noteq> None \<and>
          source l = s \<and> s \<noteq> void \<and>
          (\<forall>m\<in>set pre. attrs m name \<noteq> None \<longrightarrow> source_value (source m) < source_value s) \<and>
          (\<forall>m\<in>set post. attrs m name \<noteq> None \<longrightarrow> source_value (source m) \<le> source_value s))) \<and>
    (\<forall>c'. strip_unset name (Some c') = strip_unset name (Some c) \<longrightarrow>
          value_with_source c' name = value_with_source c name)"
proof -
  from walk_total[OF assms] obtain v s where w: "walk name (Some c) (None, void) = Inr (v, s)"
    by blast
  note ch = walk_char[OF assms w]
  have q: "quiet name (chain c) void \<longleftrightarrow> (\<forall>l\<in>set (chain c). attrs l name = None \<or> source l = void)"
    by (simp add: quiet_def source_value_void)
  have a: "(\<forall>l\<in>set (chain c). attrs l name = None \<or> source l = void) \<longrightarrow> v = None \<and> s = void"
    using ch q by (simp add: chain_opt_Some)
  have b: "\<not> (\<forall>l\<in>set (chain c). attrs l name = None \<or> source l = void) \<longrightarrow>
       (\<exists>pre l post. chain c = pre @ l # post \<and> attrs l name = v \<and> v \<noteq> None \<and>
          source l = s \<and> s \<noteq> void \<and>
          (\<forall>m\<in>set pre. attrs m name \<noteq> None \<longrightarrow> source_value (source m) < source_value s) \<and>
          (\<forall>m\<in>set post. attrs m name \<noteq> None \<longrightarrow> source_value (source m) \<le> source_value s))"
  proof
    assume "\<not> (\<forall>l\<in>set (chain c). attrs l name = None \<or> source l = void)"
    with ch q have "beats name (chain c) void v s" by (simp add: chain_opt_Some)
    then show "\<exists>pre l post. chain c = pre @ l # post \<and> attrs l name = v \<and> v \<noteq> None \<and>
          source l = s \<and> s \<noteq> void \<and>
          (\<forall>m\<in>set pre. attrs m name \<noteq> None \<longrightarrow> source_value (source m) < source_value s) \<and>
          (\<forall>m\<in>set post. attrs m name \<noteq> None \<longrightarrow> source_value (source m) \<le> source_value s)"
      unfolding beats_def by (simp add: source_value_pos)
  qed
  have t: "\<forall>c'. strip_unset name (Some c') = strip_unset name (Some c) \<longrightarrow>
          value_with_source c' name = value_with_source c name"
    unfolding value_with_source_def
    by (metis walk_strip[OF assms])
  from w a b t show ?thesis unfolding value_with_source_def by blast
qed

lemma loop_is_field: "''loop'' \<in> set config_fields"
  by (simp add: config_fields_def)

lemma value_with_source_example:
  "value_with_source example_cli ''loop'' = Inr (Some (PInt 4), config_file)"
  by (simp add: value_with_source_def example_cli_def example_file_def example_default_def
      getattribute_def loop_is_field kwargs_attrs_def)

theorem value_with_source_resolves_witness:
  "''loop'' \<in> set config_fields \<and>
   value_with_source example_cli ''loop'' = Inr (Some (PInt 4), config_file) \<and>
   (\<exists>pre l post. chain example_cli = pre @ l # post \<and> attrs l ''loop'' = Some (PInt 4) \<and>
      source l = config_file \<and>
      (\<forall>m\<in>set pre. attrs m ''loop'' \<noteq> None \<longrightarrow> source_value (source m) < 2))"
proof -
  have set2: "\<not> (\<forall>l\<in>set (chain example_cli). attrs l ''loop'' = None \<or> source l = void)"
    by (simp add: example_cli_def example_file_def example_default_def kwargs_attrs_def)
  from value_with_source_resolves[OF loop_is_field, of example_cli] set2
  obtain v s pre l post where
    h: "value_with_source example_cli ''loop'' = Inr (v, s)"
       "chain example_cli = pre @ l # post" "attrs l ''loop'' = v" "source l = s"
       "\<forall>m\<in>set pre. attrs m ''loop'' \<noteq> None \<longrightarrow> source_value (source m) < source_value s"
    by blast
  from h(1) value_with_source_example have "v = Some (PInt 4)" "s = config_file" by simp_all
  with h loop_is_field value_with_source_example show ?thesis by auto
qed

text \<open>
  A layer whose source is \<open>void\<close> sets \<open>loop\<close>, it is the only layer, and the lookup
  still answers \<open>(None, void)\<close>: the comparison with the initial best source \<open>void\<close> is
  strict.
\<close>

theorem value_with_source_void_layer:
  "chain example_void = [example_void] \<and>
   attrs example_void ''loop'' = Some (PInt 3) \<and>
   source example_void = void \<and>
   value_with_source example_void ''loop'' = Inr (None, void)"
  by (simp add: value_with_source_def example_void_def getattribute_def loop_is_field
      kwargs_attrs_def)

subsection \<open>Building a layer with unknown keys\<close>

lemma split_ws_from_word:
  "\<forall>c\<in>set w. \<not> is_space c \<Longrightarrow> cur @ w \<noteq> [] \<Longrightarrow> split_ws_from cur w = [cur @ w]"
  by (induction w arbitrary: cur) auto

lemma split_ws_from_nonempty:
  "cur \<noteq> [] \<Longrightarrow> split_ws_from cur s \<noteq> []"
  by (induction s arbitrary: cur) auto

lemma space_is_space: "is_space (CHR '' '')"
  by (simp add: is_space_def)

lemma split_ws_from_last:
  assumes "\<forall>c\<in>set w. \<not> is_space c" and "w \<noteq> []"
  shows "split_ws_from cur (pre @ CHR '' '' # w) \<noteq> [] \<and>
         last (split_ws_from cur (pre @ CHR '' '' # w)) = w"
  using assms split_ws_from_word[of w "[]"] space_is_space
  by (induction pre arbitrary: cur) auto

lemma quoted_no_space: "\<forall>c\<in>set k. \<not> is_space c \<Longrightarrow> \<forall>c\<in>set (quoted k). \<not> is_space c"
  by (auto simp: quoted_def is_space_def)

lemma py_split_message:
  assumes "\<forall>c\<in>set k. \<not> is_space c"
  shows "py_split (pre @ CHR '' '' # quoted k) \<noteq> [] \<and>
         last (py_split (pre @ CHR '' '' # quoted k)) = quoted k"
  unfolding py_split_def
  by (rule split_ws_from_last[OF quoted_no_space[OF assms]]) (simp add: quoted_def)

lemma py_split_starts:
  "\<not> is_space c \<Longrightarrow> py_split (c # s) \<noteq> []"
  by (simp add: py_split_def split_ws_from_nonempty)

lemma internal_not_config: "k \<in> set internal_fields \<Longrightarrow> k \<notin> set config_fields"
  by (auto simp: internal_fields_def config_fields_def)

text \<open>
  The exception text of the rejected call: for the first key that repeats an internal
  field if there is one, else for the first key that is no field.
\<close>

lemma Config_init_unknown:
  assumes "\<exists>k\<in>set (map fst overrides). k \<notin> set config_fields"
  shows "\<exists>k\<in>set (map fst overrides). k \<notin> set config_fields \<and>
     (Config_init p s overrides =
        Inl (TypeError (''halmos.config.Config() got multiple values for keyword argument''
               @ CHR '' '' # quoted k))
      \<or> Config_init p s overrides =
        Inl (TypeError (''Config.__init__() got an unexpected keyword argument''
               @ CHR '' '' # quoted k)))"
proof (cases "find (\<lambda>k. k \<in> set internal_fields) (map fst overrides)")
  case (Some k)
  then have "k \<in> set (map fst overrides)" "k \<in> set internal_fields"
    by (auto simp: find_Some_iff)
  with Some internal_not_config[of k] show ?thesis by (auto simp: Config_init_def)
next
  case None
  from assms obtain k where "find (\<lambda>k. k \<notin> set config_fields) (map fst overrides) = Some k"
    by (cases "find (\<lambda>k. k \<notin> set config_fields) (map fst overrides)") (auto simp: find_None_iff)
  moreover from this have "k \<in> set (map fst overrides)" "k \<notin> set config_fields"
    by (auto simp: find_Some_iff)
  ultimately show ?thesis using None by (auto simp: Config_init_def)
qed

text \<open>
  Whatever the base layer, the source and the warnings printed before: when no key is
  the name of a parameter of the method, a key that is no field of the schema makes
  \<open>with_overrides\<close> print one message and exit with status 2; no configuration is
  returned.
\<close>

lemma with_overrides_unknown_exits:
  assumes "\<exists>k\<in>set (map fst overrides). k \<notin> set config_fields"
    and "\<forall>k\<in>set (map fst overrides). k \<notin> set method_parameters"
  shows "\<exists>msg. with_overrides self src overrides printed =
           (printed @ [''error: unrecognized argument: '' @ msg], Inl (SysExit 2))"
proof -
  from assms(2) have n: "find (\<lambda>k. k \<in> set method_parameters) (map fst overrides) = None"
    by (simp add: find_None_iff)
  from Config_init_unknown[OF assms(1), of "Some self" src] obtain e where
    e: "Config_init (Some self) src overrides = Inl (TypeError e)" and ne: "py_split e \<noteq> []"
    by (auto simp: py_split_starts is_space_def)
  then obtain t ts where "py_split e = t # ts" by (cases "py_split e") auto
  with e n show ?thesis by (simp add: with_overrides_def warn_def)
qed

text \<open>
  A key that is the name of a parameter of the method (neither is a field of the
  schema): \<open>TypeError\<close> leaves the method, nothing is printed and \<open>sys.exit\<close> is not
  reached.
\<close>

lemma method_parameters_not_fields: "k \<in> set method_parameters \<Longrightarrow> k \<notin> set config_fields"
  by (auto simp: method_parameters_def config_fields_def)

lemma with_overrides_parameter_name_raises:
  assumes "\<exists>k\<in>set (map fst overrides). k \<in> set method_parameters"
  shows "\<exists>k\<in>set (map fst overrides). k \<in> set method_parameters \<and> k \<notin> set config_fields \<and>
     with_overrides self src overrides printed =
       (printed,
        Inl (Raise (TypeError (''Config.with_overrides() got multiple values for argument ''
               @ quoted k))))"
proof -
  from assms obtain k where
    f: "find (\<lambda>k. k \<in> set method_parameters) (map fst overrides) = Some k"
    by (cases "find (\<lambda>k. k \<in> set method_parameters) (map fst overrides)")
       (auto simp: find_None_iff)
  then have "k \<in> set (map fst overrides)" "k \<in> set method_parameters"
    by (auto simp: find_Some_iff)
  with f method_parameters_not_fields[of k] show ?thesis
    by (auto simp: with_overrides_def)
qed

lemma with_overrides_source_key:
  "with_overrides example_default config_file [(''source'', Some (PInt 1))] [] =
     ([], Inl (Raise (TypeError
        (''Config.with_overrides() got multiple values for argument '' @ quoted ''source''))))"
  by (simp add: with_overrides_def method_parameters_def)

text \<open>
  When no key is the name of a parameter of the method and the first offending key
  holds no whitespace, the message names it, between the quotes of the interpreter's
  text.
\<close>

lemma with_overrides_names_key:
  assumes "find (\<lambda>k. k \<in> set internal_fields) (map fst overrides) = None"
    and "find (\<lambda>k. k \<notin> set config_fields) (map fst overrides) = Some k"
    and "\<forall>c\<in>set k. \<not> is_space c"
    and "find (\<lambda>k. k \<in> set method_parameters) (map fst overrides) = None"
  shows "with_overrides self src overrides printed =
           (printed @ [''error: unrecognized argument: '' @ quoted k], Inl (SysExit 2))"
proof -
  let ?pre = "''Config.__init__() got an unexpected keyword argument''"
  have e: "Config_init (Some self) src overrides = Inl (TypeError (?pre @ CHR '' '' # quoted k))"
    using assms(1,2) by (simp add: Config_init_def)
  from py_split_message[OF assms(3), of ?pre] obtain t ts where
    "py_split (?pre @ CHR '' '' # quoted k) = t # ts" "last (t # ts) = quoted k"
    by (cases "py_split (?pre @ CHR '' '' # quoted k)") auto
  with e assms(4) show ?thesis by (simp add: with_overrides_def warn_def del: last.simps)
qed

text \<open>
  C4. An override key with a space in it, here \<open>foo bar\<close> (a quoted key of a TOML file):
  the process exits with status 2 and returns no configuration, but the message shows
  \<open>bar'\<close>, the last whitespace-separated token of the exception text, not the key.
\<close>

theorem with_overrides_key_with_space:
  "with_overrides example_default config_file [(''foo bar'', Some (PInt 1))] [] =
     ([''error: unrecognized argument: bar'' @ [CHR 0x27]], Inl (SysExit 2))"
  by (simp add: with_overrides_def method_parameters_def Config_init_def internal_fields_def
      config_fields_def quoted_def py_split_def is_space_def warn_def)

subsection \<open>The derived solver command\<close>

lemma solver_is_field: "''solver'' \<in> set config_fields"
  by (simp add: config_fields_def)

lemma solver_command_is_field: "''solver_command'' \<in> set config_fields"
  by (simp add: config_fields_def)

lemma value_with_source_total:
  "name \<in> set config_fields \<Longrightarrow> \<exists>v s. value_with_source c name = Inr (v, s)"
  unfolding value_with_source_def by (rule walk_total)

lemma value_with_source_present:
  assumes "name \<in> set config_fields" and "value_with_source c name = Inr (Some v, s)"
  shows "s \<noteq> void"
proof -
  from assms(2) have w: "walk name (Some c) (None, void) = Inr (Some v, s)"
    by (simp add: value_with_source_def)
  from walk_char[OF assms(1) w] have "beats name (chain_opt (Some c)) void (Some v) s"
    by auto
  then show ?thesis by (auto simp: beats_def)
qed

text \<open>The two paths of the body, by the resolved values of the two fields.\<close>

lemma compute_solver_command_char:
  assumes "value_with_source self ''solver'' = Inr (solver, ss)"
    and "value_with_source self ''solver_command'' = Inr (cmd, cs)"
  shows "compute_solver_command gsc split self w =
     (if truthy_opt cmd \<and> source_value ss \<le> source_value cs
      then (w\<lparr>emitted := (if cs = ss then warn (same_level_warning ss) False (emitted w)
                           else emitted w),
              called := called w @ [ShlexSplit (the cmd)]\<rparr>,
            case split (the cmd) of Inl e \<Rightarrow> Inl (Raise e) | Inr tokens \<Rightarrow> Inr tokens)
      else lookup_solver gsc solver w)"
proof (cases cmd)
  case None
  with assms show ?thesis by (simp add: compute_solver_command_def)
next
  case (Some c)
  with assms(2) have "cs \<noteq> void"
    using value_with_source_present[OF solver_command_is_field] by blast
  then have "source_value cs \<noteq> 0" by (cases cs) simp_all
  with assms Some show ?thesis
    by (auto simp: compute_solver_command_def Let_def split: sum.splits)
qed

lemma lookup_solver_world:
  "fst (lookup_solver gsc solver w) = w\<lparr>called := called w @ [GetSolverCommand solver]\<rparr>"
  by (simp add: lookup_solver_def Let_def split: option.splits sum.splits)






text \<open>
  An override given on the command line over a solver left at its default: the override
  is used and nothing is printed, the two sources being different.
\<close>

lemma solver_command_above_solver_is_silent:
  "compute_solver_command example_registry example_lexer example_command_cli world0 =
     (\<lparr>emitted = [], called = [ShlexSplit (PStr ''cvc5 --lang smt2'')]\<rparr>,
      Inr [''cvc5'', ''--lang'', ''smt2''])"
  by (simp add: compute_solver_command_def value_with_source_def
      example_command_cli_def example_default_def getattribute_def solver_is_field
      solver_command_is_field kwargs_attrs_def example_lexer_def py_split_def is_space_def
      world0_def)

text \<open>
  C9. When the resolved \<open>solver_command\<close> is absent or the empty string, at whatever
  source, the body takes the registry path: \<open>get_solver_command\<close> is called, once and on
  the resolved \<open>solver\<close>, \<open>shlex.split\<close> is not called and no warning is printed. The
  result is what that call gives: the exception it raises, \<open>RuntimeError\<close> when it gives
  \<open>None\<close> or an empty command, and else the command it returns, which the property
  stores in its cache.
\<close>

theorem empty_solver_command_uses_registry:
  assumes "value_with_source self ''solver_command'' = Inr (cmd, cs)"
    and "cmd = None \<or> cmd = Some (PStr [])"
  shows "\<exists>solver ss. value_with_source self ''solver'' = Inr (solver, ss) \<and>
     called (fst (compute_solver_command gsc split self w)) = called w @ [GetSolverCommand solver] \<and>
     emitted (fst (compute_solver_command gsc split self w)) = emitted w \<and>
     snd (compute_solver_command gsc split self w) =
       (case gsc solver of
          Inl e \<Rightarrow> Inl (Raise e)
        | Inr None \<Rightarrow> Inl (Raise (RuntimeError solver))
        | Inr (Some command) \<Rightarrow>
            if command = [] then Inl (Raise (RuntimeError solver)) else Inr command) \<and>
     resolved_solver_command gsc split self (None, w) =
       (((case gsc solver of
            Inl e \<Rightarrow> None
          | Inr None \<Rightarrow> None
          | Inr (Some command) \<Rightarrow> if command = [] then None else Some command),
         w\<lparr>called := called w @ [GetSolverCommand solver]\<rparr>),
        snd (compute_solver_command gsc split self w))"
proof -
  from value_with_source_total[OF solver_is_field, of self] obtain solver ss where
    s: "value_with_source self ''solver'' = Inr (solver, ss)" by blast
  from assms(2) have f: "\<not> truthy_opt cmd" by auto
  from compute_solver_command_char[OF s assms(1), of gsc split w] f
  have c: "compute_solver_command gsc split self w = lookup_solver gsc solver w" by simp
  have r: "snd (lookup_solver gsc solver w) =
       (case gsc solver of
          Inl e \<Rightarrow> Inl (Raise e)
        | Inr None \<Rightarrow> Inl (Raise (RuntimeError solver))
        | Inr (Some command) \<Rightarrow>
            if command = [] then Inl (Raise (RuntimeError solver)) else Inr command)"
    by (simp add: lookup_solver_def Let_def split: sum.splits option.splits)
  have k: "resolved_solver_command gsc split self (None, w) =
       (((case gsc solver of
            Inl e \<Rightarrow> None
          | Inr None \<Rightarrow> None
          | Inr (Some command) \<Rightarrow> if command = [] then None else Some command),
         w\<lparr>called := called w @ [GetSolverCommand solver]\<rparr>),
        snd (lookup_solver gsc solver w))"
    by (simp add: resolved_solver_command_def c lookup_solver_def Let_def
        split: sum.splits option.splits)
  from s c r k show ?thesis
    by (simp add: lookup_solver_world)
qed

lemma example_empty_command_value:
  "value_with_source example_empty_command_cli ''solver_command'' = Inr (Some (PStr []), command_line)"
  by (simp add: value_with_source_def example_empty_command_cli_def example_default_def
      getattribute_def solver_command_is_field kwargs_attrs_def)

lemma example_empty_command_solver:
  "value_with_source example_empty_command_cli ''solver'' = Inr (Some (PStr ''yices''), default_source)"
  by (simp add: value_with_source_def example_empty_command_cli_def example_default_def
      getattribute_def solver_is_field kwargs_attrs_def)

theorem empty_solver_command_uses_registry_witness:
  "value_with_source example_empty_command_cli ''solver_command'' = Inr (Some (PStr []), command_line) \<and>
   value_with_source example_empty_command_cli ''solver'' = Inr (Some (PStr ''yices''), default_source) \<and>
   source_value default_source \<le> source_value command_line \<and>
   compute_solver_command example_registry example_lexer example_empty_command_cli world0 =
     (\<lparr>emitted = [], called = [GetSolverCommand (Some (PStr ''yices''))]\<rparr>,
      Inr [''yices-smt2'', ''--incremental'']) \<and>
   resolved_solver_command example_registry example_lexer example_empty_command_cli (None, world0) =
     ((Some [''yices-smt2'', ''--incremental''],
       \<lparr>emitted = [], called = [GetSolverCommand (Some (PStr ''yices''))]\<rparr>),
      Inr [''yices-smt2'', ''--incremental'']) \<and>
   compute_solver_command empty_registry example_lexer example_empty_command_cli world0 =
     (\<lparr>emitted = [], called = [GetSolverCommand (Some (PStr ''yices''))]\<rparr>,
      Inl (Raise (RuntimeError (Some (PStr ''yices'')))))"
proof -
  from empty_solver_command_uses_registry[OF example_empty_command_value, of example_registry
      example_lexer world0]
  obtain solver ss where h:
    "value_with_source example_empty_command_cli ''solver'' = Inr (solver, ss)"
    "called (fst (compute_solver_command example_registry example_lexer
        example_empty_command_cli world0)) = called world0 @ [GetSolverCommand solver]"
    "emitted (fst (compute_solver_command example_registry example_lexer
        example_empty_command_cli world0)) = emitted world0"
    "snd (compute_solver_command example_registry example_lexer example_empty_command_cli world0) =
       (case example_registry solver of
          Inl e \<Rightarrow> Inl (Raise e)
        | Inr None \<Rightarrow> Inl (Raise (RuntimeError solver))
        | Inr (Some command) \<Rightarrow>
            if command = [] then Inl (Raise (RuntimeError solver)) else Inr command)"
    "resolved_solver_command example_registry example_lexer example_empty_command_cli (None, world0) =
       (((case example_registry solver of
            Inl e \<Rightarrow> None
          | Inr None \<Rightarrow> None
          | Inr (Some command) \<Rightarrow> if command = [] then None else Some command),
         world0\<lparr>called := called world0 @ [GetSolverCommand solver]\<rparr>),
        snd (compute_solver_command example_registry example_lexer example_empty_command_cli world0))"
    by blast
  from empty_solver_command_uses_registry[OF example_empty_command_value, of empty_registry
      example_lexer world0]
  obtain solver' ss' where g:
    "value_with_source example_empty_command_cli ''solver'' = Inr (solver', ss')"
    "called (fst (compute_solver_command empty_registry example_lexer
        example_empty_command_cli world0)) = called world0 @ [GetSolverCommand solver']"
    "emitted (fst (compute_solver_command empty_registry example_lexer
        example_empty_command_cli world0)) = emitted world0"
    "snd (compute_solver_command empty_registry example_lexer example_empty_command_cli world0) =
       (case empty_registry solver' of
          Inl e \<Rightarrow> Inl (Raise e)
        | Inr None \<Rightarrow> Inl (Raise (RuntimeError solver'))
        | Inr (Some command) \<Rightarrow>
            if command = [] then Inl (Raise (RuntimeError solver')) else Inr command)"
    by blast
  from h(1) example_empty_command_solver have sv: "solver = Some (PStr ''yices'')" by simp
  from g(1) example_empty_command_solver have sv': "solver' = Some (PStr ''yices'')" by simp
  have a: "compute_solver_command example_registry example_lexer example_empty_command_cli world0 =
     (\<lparr>emitted = [], called = [GetSolverCommand (Some (PStr ''yices''))]\<rparr>,
      Inr [''yices-smt2'', ''--incremental''])"
    using h(2,3,4) unfolding sv
    by (cases "compute_solver_command example_registry example_lexer example_empty_command_cli world0")
       (auto simp: example_registry_def world0_def)
  have b: "resolved_solver_command example_registry example_lexer example_empty_command_cli (None, world0) =
     ((Some [''yices-smt2'', ''--incremental''],
       \<lparr>emitted = [], called = [GetSolverCommand (Some (PStr ''yices''))]\<rparr>),
      Inr [''yices-smt2'', ''--incremental''])"
    unfolding h(5) h(4) sv by (simp add: example_registry_def world0_def)
  have c: "compute_solver_command empty_registry example_lexer example_empty_command_cli world0 =
     (\<lparr>emitted = [], called = [GetSolverCommand (Some (PStr ''yices''))]\<rparr>,
      Inl (Raise (RuntimeError (Some (PStr ''yices'')))))"
    using g(2,3,4) unfolding sv'
    by (cases "compute_solver_command empty_registry example_lexer example_empty_command_cli world0")
       (auto simp: empty_registry_def world0_def)
  from example_empty_command_value example_empty_command_solver a b c show ?thesis by simp
qed

subsection \<open>Locating the config file\<close>

text \<open>
  C8. For every argument list that the parser accepts, with \<open>ns\<close> the namespace it gives:
  if \<open>--config\<close> was given a path that is not the empty string, the locator returns
  exactly that path, whatever \<open>exists\<close> and \<open>include_missing\<close> are; otherwise, that is if
  \<open>--config\<close> was not given or was given the empty string, it returns
  \<open>root/halmos.toml\<close>, or the empty list when \<open>include_missing\<close> is false and that file
  does not exist. When the parser exits, so does the locator.
\<close>

theorem resolve_config_files_rule:
  "(\<forall>ns c. parse_known_args \<lparr>ns_root = getcwd, ns_config = None\<rparr> args = Inr ns \<and>
        ns_config ns = Some c \<and> c \<noteq> [] \<longrightarrow>
        resolve_config_files parse_known_args getcwd exists args include_missing = Inr [c]) \<and>
   (\<forall>ns. parse_known_args \<lparr>ns_root = getcwd, ns_config = None\<rparr> args = Inr ns \<and>
        (ns_config ns = None \<or> ns_config ns = Some []) \<longrightarrow>
        resolve_config_files parse_known_args getcwd exists args include_missing =
          (if \<not> include_missing \<and> \<not> exists (os_path_join (ns_root ns) ''halmos.toml'')
           then Inr [] else Inr [os_path_join (ns_root ns) ''halmos.toml''])) \<and>
   (\<forall>e. parse_known_args \<lparr>ns_root = getcwd, ns_config = None\<rparr> args = Inl e \<longrightarrow>
        resolve_config_files parse_known_args getcwd exists args include_missing = Inl e)"
  by (auto simp: resolve_config_files_def Let_def)

theorem resolve_config_files_rule_witness:
  "resolve_config_files example_parser ''/work'' no_files [''--config'', ''my.toml''] False
     = Inr [''my.toml''] \<and>
   resolve_config_files example_parser ''/work'' no_files [] False = Inr [] \<and>
   resolve_config_files example_parser ''/work'' no_files [] True = Inr [''/work/halmos.toml''] \<and>
   resolve_config_files example_parser ''/work'' no_files [''--root'', ''/p/''] True
     = Inr [''/p/halmos.toml''] \<and>
   resolve_config_files example_parser ''/work'' no_files [''--help''] True = Inl (SysExit 0)"
proof -
  note r = resolve_config_files_rule[of example_parser "''/work''" _ no_files]
  have p1: "example_parser \<lparr>ns_root = ''/work'', ns_config = None\<rparr> [''--config'', ''my.toml'']
      = Inr \<lparr>ns_root = ''/work'', ns_config = Some ''my.toml''\<rparr>" by simp
  have p2: "example_parser \<lparr>ns_root = ''/work'', ns_config = None\<rparr> []
      = Inr \<lparr>ns_root = ''/work'', ns_config = None\<rparr>" by simp
  have p3: "example_parser \<lparr>ns_root = ''/work'', ns_config = None\<rparr> [''--root'', ''/p/'']
      = Inr \<lparr>ns_root = ''/p/'', ns_config = None\<rparr>" by simp
  have p4: "example_parser \<lparr>ns_root = ''/work'', ns_config = None\<rparr> [''--help'']
      = Inl (SysExit 0)" by simp
  have a: "resolve_config_files example_parser ''/work'' no_files [''--config'', ''my.toml''] False
     = Inr [''my.toml'']"
    using r[of "[''--config'', ''my.toml'']" False] p1 by simp
  have b: "resolve_config_files example_parser ''/work'' no_files [] False = Inr []"
    using r[of "[]" False] p2 by (simp add: no_files_def)
  have c: "resolve_config_files example_parser ''/work'' no_files [] True
     = Inr [''/work/halmos.toml'']"
    using r[of "[]" True] p2 by (simp add: os_path_join_def)
  have d: "resolve_config_files example_parser ''/work'' no_files [''--root'', ''/p/''] True
     = Inr [''/p/halmos.toml'']"
    using r[of "[''--root'', ''/p/'']" True] p3 by (simp add: os_path_join_def)
  have e: "resolve_config_files example_parser ''/work'' no_files [''--help''] True
     = Inl (SysExit 0)"
    using r[of "[''--help'']" True] p4 by simp
  from a b c d e show ?thesis by simp
qed

text \<open>
  \<open>--config\<close> given explicitly with the empty string as its value: the value is not
  returned, the locator falls back to the conventional path.
\<close>

theorem resolve_config_files_empty_config:
  "example_parser \<lparr>ns_root = ''/work'', ns_config = None\<rparr> [''--config'', []]
     = Inr \<lparr>ns_root = ''/work'', ns_config = Some []\<rparr> \<and>
   resolve_config_files example_parser ''/work'' no_files [''--config'', []] True
     = Inr [''/work/halmos.toml''] \<and>
   resolve_config_files example_parser ''/work'' no_files [''--config'', []] False = Inr []"
  by (simp add: resolve_config_files_def os_path_join_def no_files_def)

subsection \<open>The integer-set codec\<close>

lemma ParseErrorCodes_parse_star: "ParseErrorCodes_parse ''*'' = Inr {}"
  by (simp add: ParseErrorCodes_parse_def py_strip_def is_space_def)

lemma ParseErrorCodes_parse_hex_dec: "ParseErrorCodes_parse ''0x01,2'' = Inr {1, 2}"
  by (simp add: ParseErrorCodes_parse_def py_strip_def is_space_def parse_csv_def py_int0_def
      after_prefix_def parse_digits_def digit_groups_ok_def digits_value_def is_digit_of_def
      digit_value_def ensure_non_empty_set_def signed_def)

lemma ParseErrorCodes_parse_bases: "ParseErrorCodes_parse ''0b11, 0o17,0X1f ,7'' = Inr {3, 15, 31, 7}"
  by (simp add: ParseErrorCodes_parse_def py_strip_def is_space_def parse_csv_def py_int0_def
      after_prefix_def parse_digits_def digit_groups_ok_def digits_value_def is_digit_of_def
      digit_value_def ensure_non_empty_set_def signed_def)

lemma ParseErrorCodes_empty_only_star:
  "ParseErrorCodes_parse s = Inr {} \<Longrightarrow> py_strip s = ''*''"
  by (auto simp: ParseErrorCodes_parse_def Let_def ensure_non_empty_set_def
      split: if_splits sum.splits)

lemma ParseErrorCodes_empty_rejected:
  "py_strip s \<noteq> ''*'' \<Longrightarrow> traverse py_int0 (parse_csv (py_strip s)) = Inr xs \<Longrightarrow> set xs = {} \<Longrightarrow>
   ParseErrorCodes_parse s = Inl (ValueError ''required a non-empty list'')"
  by (auto simp: ParseErrorCodes_parse_def Let_def ensure_non_empty_set_def
      split: if_splits sum.splits)

text \<open>
  C6. The integer-set codec parses \<open>*\<close> to the empty set and prints the empty set as
  \<open>*\<close>; it parses comma-separated values in several bases, \<open>0x01,2\<close> to \<open>{1, 2}\<close>; the
  empty set is the result of no input but \<open>*\<close> (with whitespace around it or not), and
  an input other than \<open>*\<close> whose values make an empty set is rejected with
  \<open>ValueError\<close>.
\<close>

theorem ParseErrorCodes_star_and_bases:
  "ParseErrorCodes_parse ''*'' = Inr {} \<and>
   ParseErrorCodes_unparse [] = ''*'' \<and>
   ParseErrorCodes_parse ''0x01,2'' = Inr {1, 2} \<and>
   ParseErrorCodes_parse ''0b11, 0o17,0X1f ,7'' = Inr {3, 15, 31, 7} \<and>
   (\<forall>s. ParseErrorCodes_parse s = Inr {} \<longrightarrow> py_strip s = ''*'') \<and>
   (\<forall>s xs. py_strip s \<noteq> ''*'' \<and> traverse py_int0 (parse_csv (py_strip s)) = Inr xs \<and> set xs = {}
      \<longrightarrow> ParseErrorCodes_parse s = Inl (ValueError ''required a non-empty list''))"
proof (intro conjI allI impI)
  show "ParseErrorCodes_parse ''*'' = Inr {}" by (rule ParseErrorCodes_parse_star)
  show "ParseErrorCodes_unparse [] = ''*''" by (simp add: ParseErrorCodes_unparse_def)
  show "ParseErrorCodes_parse ''0x01,2'' = Inr {1, 2}" by (rule ParseErrorCodes_parse_hex_dec)
  show "ParseErrorCodes_parse ''0b11, 0o17,0X1f ,7'' = Inr {3, 15, 31, 7}"
    by (rule ParseErrorCodes_parse_bases)
next
  fix s assume "ParseErrorCodes_parse s = Inr {}"
  then show "py_strip s = ''*''" by (rule ParseErrorCodes_empty_only_star)
next
  fix s xs
  assume h: "py_strip s \<noteq> ''*'' \<and> traverse py_int0 (parse_csv (py_strip s)) = Inr xs \<and> set xs = {}"
  show "ParseErrorCodes_parse s = Inl (ValueError ''required a non-empty list'')"
    by (rule ParseErrorCodes_empty_rejected[of s xs]) (use h in simp_all)
qed

lemma ParseErrorCodes_parse_star_spaces: "ParseErrorCodes_parse '' * '' = Inr {}"
  by (simp add: ParseErrorCodes_parse_def py_strip_def is_space_def)

theorem ParseErrorCodes_star_and_bases_witness:
  "ParseErrorCodes_parse '' * '' = Inr {} \<and> py_strip '' * '' = ''*'' \<and>
   py_strip '' , '' \<noteq> ''*'' \<and> traverse py_int0 (parse_csv (py_strip '' , '')) = Inr [] \<and>
   ParseErrorCodes_parse '' , '' = Inl (ValueError ''required a non-empty list'')"
proof -
  note t = ParseErrorCodes_star_and_bases
  have a: "py_strip '' , '' \<noteq> ''*''" by (simp add: py_strip_def is_space_def)
  have b: "traverse py_int0 (parse_csv (py_strip '' , '')) = Inr []"
    by (simp add: py_strip_def is_space_def parse_csv_def)
  have e: "set ([] :: int list) = {}" by simp
  have c: "py_strip '' * '' = ''*''"
    by (rule t[THEN conjunct2, THEN conjunct2, THEN conjunct2, THEN conjunct2, THEN conjunct1,
          THEN spec, THEN mp, OF ParseErrorCodes_parse_star_spaces])
  have d: "ParseErrorCodes_parse '' , '' = Inl (ValueError ''required a non-empty list'')"
    by (rule t[THEN conjunct2, THEN conjunct2, THEN conjunct2, THEN conjunct2, THEN conjunct2,
          THEN spec, THEN spec, THEN mp, OF conjI[OF a conjI[OF b e]]])
  show ?thesis
    apply (intro conjI)
        apply (rule ParseErrorCodes_parse_star_spaces)
       apply (rule c)
      apply (rule a)
     apply (rule b)
    apply (rule d)
    done
qed

subsection \<open>The array-lengths codec\<close>

lemma dict_set_subset: "set (dict_set k v kvs) \<subseteq> insert (k, v) (set kvs)"
  by (induction kvs) (auto split: if_splits)

lemma lengths_of_matches_nonempty:
  "lengths_of_matches ms acc = Inr m \<Longrightarrow> \<forall>(k, sizes)\<in>set acc. sizes \<noteq> [] \<Longrightarrow>
   \<forall>(k, sizes)\<in>set m. sizes \<noteq> []"
proof (induction ms acc rule: lengths_of_matches.induct)
  case (1 acc)
  then show ?case by simp
next
  case (2 name sizes_lst single_size ms acc)
  from "2.prems"(1) obtain xs where
    xs: "traverse py_int (parse_csv (if sizes_lst \<noteq> [] then sizes_lst else single_size)) = Inr xs"
    by (auto split: sum.splits)
  with "2.prems"(1) have ne: "xs \<noteq> []" and en: "ensure_non_empty xs = Inr xs"
    by (auto simp: ensure_non_empty_def split: if_splits)
  with "2.prems"(1) xs have r: "lengths_of_matches ms (dict_set (py_strip name) xs acc) = Inr m"
    by simp
  have "\<forall>(k, sizes)\<in>set (dict_set (py_strip name) xs acc). sizes \<noteq> []"
    using "2.prems"(2) ne dict_set_subset[of "py_strip name" xs acc] by auto
  from "2.IH"[OF xs en r this] show ?case .
qed

lemma filter_all_space: "\<forall>c\<in>set s. is_space c \<Longrightarrow> filter (\<lambda>c. \<not> is_space c) s = []"
  by (induction s) auto

text \<open>
  C10. \<open>ParseArrayLengths.parse\<close> returns the empty map, and does not raise, for \<open>None\<close>,
  for the empty string and for a string of whitespace only; a non-empty input whose
  text, whitespace removed, does not match the format raises \<open>ValueError\<close>; and a map
  that is returned never holds an empty list of sizes.
\<close>

theorem ParseArrayLengths_parse_empty:
  "ParseArrayLengths_parse None = Inr [] \<and>
   ParseArrayLengths_parse (Some []) = Inr [] \<and>
   (\<forall>s. (\<forall>c\<in>set s. is_space c) \<longrightarrow> ParseArrayLengths_parse (Some s) = Inr []) \<and>
   (\<forall>s. s \<noteq> [] \<and> \<not> match_format (filter (\<lambda>c. \<not> is_space c) s) \<longrightarrow>
      ParseArrayLengths_parse (Some s) =
        Inl (ValueError (''invalid array lengths format: '' @ filter (\<lambda>c. \<not> is_space c) s))) \<and>
   (\<forall>v m. ParseArrayLengths_parse v = Inr m \<longrightarrow> (\<forall>(k, sizes)\<in>set m. sizes \<noteq> []))"
proof -
  have a: "\<forall>s. (\<forall>c\<in>set s. is_space c) \<longrightarrow> ParseArrayLengths_parse (Some s) = Inr []"
    by (simp add: ParseArrayLengths_parse_def filter_all_space)
  have b: "\<forall>s. s \<noteq> [] \<and> \<not> match_format (filter (\<lambda>c. \<not> is_space c) s) \<longrightarrow>
      ParseArrayLengths_parse (Some s) =
        Inl (ValueError (''invalid array lengths format: '' @ filter (\<lambda>c. \<not> is_space c) s))"
    by (simp add: ParseArrayLengths_parse_def)
  have c: "\<forall>v m. ParseArrayLengths_parse v = Inr m \<longrightarrow> (\<forall>(k, sizes)\<in>set m. sizes \<noteq> [])"
  proof (intro allI impI)
    fix v m assume p: "ParseArrayLengths_parse v = Inr m"
    show "\<forall>(k, sizes)\<in>set m. sizes \<noteq> []"
    proof (cases "m = []")
      case True
      then show ?thesis by simp
    next
      case False
      with p obtain s where
        "lengths_of_matches (findall_items (filter (\<lambda>c. \<not> is_space c) s)) [] = Inr m"
        by (auto simp: ParseArrayLengths_parse_def Let_def split: option.splits if_splits)
      from lengths_of_matches_nonempty[OF this] show ?thesis by simp
    qed
  qed
  from a b c show ?thesis by (simp add: ParseArrayLengths_parse_def)
qed

theorem ParseArrayLengths_parse_empty_witness:
  "list_all is_space ''  '' \<and> ParseArrayLengths_parse (Some ''  '') = Inr [] \<and>
   ''a=b'' \<noteq> [] \<and> \<not> match_format (filter (\<lambda>c. \<not> is_space c) ''a=b'') \<and>
   ParseArrayLengths_parse (Some ''a=b'') = Inl (ValueError ''invalid array lengths format: a=b'') \<and>
   ParseArrayLengths_parse (Some ''a={,}'') = Inl (ValueError ''required a non-empty list'') \<and>
   ParseArrayLengths_parse (Some ''n = 7'') = Inr [(''n'', [7])] \<and> [7::int] \<noteq> []"
proof -
  have s: "\<forall>c\<in>set ''  ''. is_space c" by (simp add: is_space_def)
  have f: "filter (\<lambda>c. \<not> is_space c) ''a=b'' = ''a=b''" by (simp add: is_space_def)
  have n: "\<not> match_format (filter (\<lambda>c. \<not> is_space c) ''a=b'')"
    unfolding f by (simp add: match_item_def match_sizes_def name_char_def is_digit_def)
  have ne: "''a=b'' \<noteq> []" by simp
  note t = ParseArrayLengths_parse_empty
  have a: "ParseArrayLengths_parse (Some ''  '') = Inr []"
    by (rule t[THEN conjunct2, THEN conjunct2, THEN conjunct1, THEN spec, THEN mp, OF s])
  have b: "ParseArrayLengths_parse (Some ''a=b'') =
      Inl (ValueError (''invalid array lengths format: '' @ filter (\<lambda>c. \<not> is_space c) ''a=b''))"
    by (rule t[THEN conjunct2, THEN conjunct2, THEN conjunct2, THEN conjunct1, THEN spec,
          THEN mp, OF conjI[OF ne n]])
  have b': "ParseArrayLengths_parse (Some ''a=b'') =
      Inl (ValueError ''invalid array lengths format: a=b'')"
    using b unfolding f by simp
  have c: "ParseArrayLengths_parse (Some ''a={,}'') = Inl (ValueError ''required a non-empty list'')"
    by (simp add: ParseArrayLengths_parse_def is_space_def match_item_def match_sizes_def
      name_char_def sizes_char_def is_digit_def parse_csv_def py_strip_def ensure_non_empty_def)
  have d: "ParseArrayLengths_parse (Some ''n = 7'') = Inr [(''n'', [7])]"
    by (simp add: ParseArrayLengths_parse_def is_space_def match_item_def match_sizes_def
      name_char_def sizes_char_def is_digit_def parse_csv_def py_strip_def py_int_def
      parse_digits_def digit_groups_ok_def digits_value_def is_digit_of_def digit_value_def
      ensure_non_empty_def signed_def)
  show ?thesis
    apply (intro conjI)
           apply (simp add: is_space_def)
          apply (rule a)
         apply (rule ne)
        apply (rule n)
       apply (rule b')
      apply (rule c)
     apply (rule d)
    apply simp
    done
qed

subsection \<open>The structure of the config file\<close>





subsection \<open>Numbers printed and read back\<close>

lemma below_16:
  "d < 16 \<Longrightarrow> d = 0 \<or> d = 1 \<or> d = 2 \<or> d = 3 \<or> d = 4 \<or> d = 5 \<or> d = 6 \<or> d = 7 \<or> d = 8
     \<or> d = 9 \<or> d = 10 \<or> d = 11 \<or> d = 12 \<or> d = 13 \<or> d = 14 \<or> d = (15::nat)"
  by arith

lemma digit_value_to_digit: "d < 16 \<Longrightarrow> digit_value (to_digit d) = Some d"
  by (drule below_16) (elim disjE, simp_all add: digit_value_def to_digit_def)

lemma to_digit_not_underscore: "d < 16 \<Longrightarrow> to_digit d \<noteq> CHR ''_''"
  by (drule below_16) (elim disjE, simp_all add: to_digit_def)

lemma to_digit_decimal: "d < 10 \<Longrightarrow> is_digit (to_digit d)"
proof -
  assume "d < 10"
  then have "d = 0 \<or> d = 1 \<or> d = 2 \<or> d = 3 \<or> d = 4 \<or> d = 5 \<or> d = 6 \<or> d = 7 \<or> d = 8 \<or> d = 9"
    by arith
  then show ?thesis by (elim disjE) (simp_all add: is_digit_def to_digit_def)
qed

lemma digits_of_nonempty: "digits_of b n \<noteq> []"
  by (induction b n rule: digits_of.induct) (subst digits_of.simps, simp)

lemma digits_of_chars:
  "2 \<le> b \<Longrightarrow> b \<le> 16 \<Longrightarrow> c \<in> set (digits_of b n) \<Longrightarrow> \<exists>d < b. c = to_digit d"
proof (induction b n rule: digits_of.induct)
  case (1 base n)
  show ?case
  proof (cases "n < base")
    case True
    with "1.prems" show ?thesis by (subst (asm) digits_of.simps) auto
  next
    case False
    with "1.prems"(1) have nb: "\<not> (n < base \<or> base < 2)" by simp
    from "1.prems"(3) nb have "c \<in> set (digits_of base (n div base)) \<or> c = to_digit (n mod base)"
      by (subst (asm) digits_of.simps) auto
    then show ?thesis
    proof
      assume "c \<in> set (digits_of base (n div base))"
      from "1.IH"[OF nb "1.prems"(1,2) this] show ?thesis .
    next
      assume "c = to_digit (n mod base)"
      moreover have "n mod base < base" using "1.prems"(1) by simp
      ultimately show ?thesis by blast
    qed
  qed
qed

lemma digits_value_snoc:
  "c \<noteq> CHR ''_'' \<Longrightarrow> digits_value b (s @ [c]) =
     digits_value b s * b + (case digit_value c of None \<Rightarrow> 0 | Some d \<Rightarrow> d)"
  by (simp add: digits_value_def)

lemma digits_value_digits_of:
  "2 \<le> b \<Longrightarrow> b \<le> 16 \<Longrightarrow> digits_value b (digits_of b n) = n"
proof (induction b n rule: digits_of.induct)
  case (1 base n)
  show ?case
  proof (cases "n < base")
    case True
    then have "n < 16" using "1.prems"(2) by simp
    with True show ?thesis
      by (subst digits_of.simps)
         (simp add: digits_value_def digit_value_to_digit to_digit_not_underscore)
  next
    case False
    with "1.prems"(1) have nb: "\<not> (n < base \<or> base < 2)" by simp
    have m: "n mod base < 16" using "1.prems" by (simp add: less_le_trans[OF mod_less_divisor])
    have "digits_value base (digits_of base n) =
        digits_value base (digits_of base (n div base) @ [to_digit (n mod base)])"
      using nb by (subst digits_of.simps) simp
    also have "\<dots> = digits_value base (digits_of base (n div base)) * base + n mod base"
      using m by (simp add: digits_value_snoc to_digit_not_underscore digit_value_to_digit)
    also have "\<dots> = n div base * base + n mod base"
      using "1.IH"[OF nb "1.prems"] by simp
    finally show ?thesis by simp
  qed
qed

lemma split_on_absent: "sep \<notin> set s \<Longrightarrow> split_on sep s = [s]"
  by (induction s) auto

lemma digit_groups_ok_plain:
  assumes "s \<noteq> []" and "\<forall>c\<in>set s. is_digit_of b c \<and> c \<noteq> CHR ''_''"
  shows "digit_groups_ok b s"
proof -
  from assms(2) have "CHR ''_'' \<notin> set s" by auto
  then have "split_on (CHR ''_'') s = [s]" by (rule split_on_absent)
  with assms show ?thesis by (simp add: digit_groups_ok_def list_all_iff)
qed

lemma digits_of_is_digit_of:
  assumes "2 \<le> b" "b \<le> 16" "c \<in> set (digits_of b n)"
  shows "is_digit_of b c \<and> c \<noteq> CHR ''_''"
proof -
  from digits_of_chars[OF assms] obtain d where d: "d < b" "c = to_digit d" by blast
  then have "d < 16" using assms(2) by simp
  with d show ?thesis
    by (simp add: is_digit_of_def digit_value_to_digit to_digit_not_underscore)
qed

lemma parse_digits_digits_of:
  "2 \<le> b \<Longrightarrow> b \<le> 16 \<Longrightarrow> parse_digits b (digits_of b n) = Some n"
  using digits_of_is_digit_of[of b _ n]
  by (simp add: parse_digits_def digits_value_digits_of digit_groups_ok_plain digits_of_nonempty)

lemma digits_of_decimal: "c \<in> set (digits_of 10 n) \<Longrightarrow> is_digit c"
proof -
  assume "c \<in> set (digits_of 10 n)"
  from digits_of_chars[OF _ _ this] obtain d where "d < 10" "c = to_digit d" by auto
  then show ?thesis by (simp add: to_digit_decimal)
qed

lemma is_digit_not_space: "is_digit c \<Longrightarrow> \<not> is_space c"
  by (auto simp: is_digit_def is_space_def)

lemma py_strip_plain: "\<forall>c\<in>set s. \<not> is_space c \<Longrightarrow> py_strip s = s"
proof -
  assume a: "\<forall>c\<in>set s. \<not> is_space c"
  then have "dropWhile is_space s = s" by (cases s) simp_all
  moreover from a have "\<forall>c\<in>set (rev s). \<not> is_space c" by simp
  then have "dropWhile is_space (rev s) = rev s" by (cases "rev s") simp_all
  ultimately show ?thesis by (simp add: py_strip_def)
qed

lemma py_str_int_chars:
  "c \<in> set (py_str_int v) \<Longrightarrow> is_digit c \<or> c = CHR ''-''"
  by (auto simp: py_str_int_def dest: digits_of_decimal split: if_splits)

lemma py_str_int_no_space: "c \<in> set (py_str_int v) \<Longrightarrow> \<not> is_space c"
  using py_str_int_chars[of c v] by (auto simp: is_digit_def is_space_def)

lemma py_str_int_nonempty: "py_str_int v \<noteq> []"
  by (simp add: py_str_int_def digits_of_nonempty)

lemma digits_of_hd_not_sign:
  "hd (digits_of 10 n) \<noteq> CHR ''-'' \<and> hd (digits_of 10 n) \<noteq> CHR ''+''"
proof -
  have "hd (digits_of 10 n) \<in> set (digits_of 10 n)" by (simp add: digits_of_nonempty)
  then have "is_digit (hd (digits_of 10 n))" by (rule digits_of_decimal)
  then show ?thesis by (auto simp: is_digit_def)
qed

lemma split_sign_digits: "split_sign (digits_of 10 n) = (False, digits_of 10 n)"
  using digits_of_hd_not_sign[of n] digits_of_nonempty[of 10 n]
  by (cases "digits_of 10 n") auto

text \<open>\<open>int(str(v)) == v\<close>\<close>

lemma py_int_py_str_int: "py_int (py_str_int v) = Inr v"
proof -
  have s: "py_strip (py_str_int v) = py_str_int v"
    by (rule py_strip_plain) (simp add: py_str_int_no_space)
  show ?thesis
  proof (cases "v < 0")
    case True
    then show ?thesis
      by (simp add: py_int_def s) (simp add: py_str_int_def parse_digits_digits_of signed_def)
  next
    case False
    then show ?thesis
      by (simp add: py_int_def s) (simp add: py_str_int_def split_sign_digits
          parse_digits_digits_of signed_def)
  qed
qed
subsection \<open>Lists printed and read back\<close>

lemma split_on_append_sep:
  "sep \<notin> set x \<Longrightarrow> split_on sep (x @ sep # s) = x # split_on sep s"
  by (induction x) auto

lemma split_on_join_Cons:
  "\<forall>x\<in>set (x0 # xs). sep \<notin> set x \<Longrightarrow> split_on sep (join [sep] (x0 # xs)) = x0 # xs"
proof (induction xs arbitrary: x0)
  case Nil
  then show ?case by (simp add: split_on_absent)
next
  case (Cons y ys)
  from Cons.prems have "split_on sep (join [sep] (y # ys)) = y # ys"
    by (intro Cons.IH) simp
  with Cons.prems show ?case by (simp add: split_on_append_sep)
qed

lemma split_on_join:
  "xs \<noteq> [] \<Longrightarrow> \<forall>x\<in>set xs. sep \<notin> set x \<Longrightarrow> split_on sep (join [sep] xs) = xs"
  by (cases xs) (simp_all only: split_on_join_Cons list.simps, simp)

lemma join_chars:
  "c \<in> set (join sep xs) \<Longrightarrow> c \<in> set sep \<or> (\<exists>x\<in>set xs. c \<in> set x)"
  by (induction sep xs rule: join.induct) auto

lemma split_on_Nil: "split_on sep [] = [[]]"
  by simp

text \<open>
  The pieces of a joined list come back from \<open>parse_csv\<close> when none of them is empty or
  holds a comma or whitespace.
\<close>

lemma parse_csv_join:
  assumes "\<forall>x\<in>set xs. x \<noteq> [] \<and> CHR '','' \<notin> set x \<and> (\<forall>c\<in>set x. \<not> is_space c)"
  shows "parse_csv (join '','' xs) = xs"
proof (cases "xs = []")
  case True
  then show ?thesis by (simp add: parse_csv_def py_strip_def)
next
  case False
  with assms have "split_on (CHR '','') (join '','' xs) = xs"
    using split_on_join[of xs "CHR '',''"] by simp
  moreover from assms have "map py_strip xs = xs"
    by (simp add: map_idI py_strip_plain)
  moreover from assms have "filter (\<lambda>x. x \<noteq> []) xs = xs"
    by (simp add: filter_id_conv)
  ultimately show ?thesis by (simp add: parse_csv_def)
qed

lemma traverse_map:
  "\<forall>x\<in>set xs. f (g x) = Inr x \<Longrightarrow> traverse f (map g xs) = Inr xs"
  by (induction xs) auto

lemma traverse_map_set:
  "\<forall>x\<in>set xs. f (g x) = Inr (h x) \<Longrightarrow> traverse f (map g xs) = Inr (map h xs)"
  by (induction xs) auto

lemma py_str_int_no_comma: "CHR '','' \<notin> set (py_str_int v)"
  using py_str_int_chars[of "CHR '',''" v] by (auto simp: is_digit_def)

text \<open>The comma-separated integer list.\<close>

lemma ParseCSVInt_roundtrip:
  "vs \<noteq> [] \<Longrightarrow> ParseCSVInt_parse (ParseCSVInt_unparse vs) = Inr vs"
proof -
  assume ne: "vs \<noteq> []"
  have "parse_csv (join '','' (map py_str_int vs)) = map py_str_int vs"
    by (rule parse_csv_join)
       (auto simp: py_str_int_nonempty py_str_int_no_comma py_str_int_no_space)
  moreover have "traverse py_int (map py_str_int vs) = Inr vs"
    by (rule traverse_map) (simp add: py_int_py_str_int)
  ultimately show ?thesis
    using ne by (simp add: ParseCSVInt_parse_def ParseCSVInt_unparse_def ensure_non_empty_def)
qed

text \<open>The list of trace events.\<close>

lemma TraceEvent_of_event_value: "TraceEvent_of (event_value e) = Inr e"
  by (cases e) (simp_all add: TraceEvent_of_def)

lemma event_value_plain:
  "event_value e \<noteq> [] \<and> CHR '','' \<notin> set (event_value e) \<and> (\<forall>c\<in>set (event_value e). \<not> is_space c)"
  by (cases e) (simp_all add: is_space_def)

lemma ParseCSVTraceEvent_roundtrip:
  "ParseCSVTraceEvent_parse (ParseCSVTraceEvent_unparse es) = Inr es"
proof -
  have "parse_csv (join '','' (map event_value es)) = map event_value es"
    by (rule parse_csv_join) (use event_value_plain in auto)
  moreover have "traverse TraceEvent_of (map event_value es) = Inr es"
    by (rule traverse_map) (simp add: TraceEvent_of_event_value)
  ultimately show ?thesis
    by (simp add: ParseCSVTraceEvent_parse_def ParseCSVTraceEvent_unparse_def)
qed

text \<open>The integer set, for codes that are not negative.\<close>

lemma format_02x_digits:
  "0 \<le> v \<Longrightarrow> format_02x v \<noteq> [] \<and> (\<forall>c\<in>set (format_02x v). is_digit_of 16 c \<and> c \<noteq> CHR ''_'')"
proof -
  assume "0 \<le> v"
  have z: "is_digit_of 16 (CHR ''0'')" by (simp add: is_digit_of_def digit_value_def)
  have d: "\<forall>c\<in>set (digits_of 16 (nat v)). is_digit_of 16 c \<and> c \<noteq> CHR ''_''"
    using digits_of_is_digit_of[of 16 _ "nat v"] by simp
  with z \<open>0 \<le> v\<close> show ?thesis
    by (simp add: format_02x_def Let_def digits_of_nonempty)
qed

lemma digits_value_leading_zero: "digits_value b (CHR ''0'' # s) = digits_value b s"
  by (simp add: digits_value_def digit_value_def)

lemma format_02x_value: "0 \<le> v \<Longrightarrow> digits_value 16 (format_02x v) = nat v"
  by (simp add: format_02x_def Let_def digits_value_leading_zero digits_value_digits_of)

lemma hex_digit_chars:
  "is_digit_of 16 c \<Longrightarrow> \<not> is_space c \<and> c \<noteq> CHR '','' \<and> c \<noteq> CHR ''-'' \<and> c \<noteq> CHR ''+''"
  by (auto simp: is_digit_of_def digit_value_def is_space_def split: if_splits option.splits)

lemma after_prefix_format_02x:
  assumes "0 \<le> v"
  shows "after_prefix 16 (format_02x v) = Some (nat v)"
proof -
  from format_02x_digits[OF assms] obtain c cs where
    f: "format_02x v = c # cs" and c: "c \<noteq> CHR ''_''"
    by (cases "format_02x v") auto
  have "parse_digits 16 (format_02x v) = Some (nat v)"
    using format_02x_digits[OF assms] format_02x_value[OF assms]
    by (simp add: parse_digits_def digit_groups_ok_plain)
  with f c show ?thesis by (simp add: after_prefix_def)
qed

lemma hex_piece_plain:
  assumes "0 \<le> v"
  shows "CHR '','' \<notin> set (CHR ''0'' # CHR ''x'' # format_02x v) \<and>
         (\<forall>c\<in>set (CHR ''0'' # CHR ''x'' # format_02x v). \<not> is_space c)"
proof -
  have "\<not> is_space (CHR ''0'')" "\<not> is_space (CHR ''x'')" by (simp_all add: is_space_def)
  with format_02x_digits[OF assms] hex_digit_chars show ?thesis by auto
qed

lemma py_int0_hex:
  assumes "0 \<le> v"
  shows "py_int0 (CHR ''0'' # CHR ''x'' # format_02x v) = Inr v"
proof -
  have st: "py_strip (CHR ''0'' # CHR ''x'' # format_02x v) = CHR ''0'' # CHR ''x'' # format_02x v"
    by (rule py_strip_plain) (use hex_piece_plain[OF assms] in blast)
  have lv: "literal_value (CHR ''0'' # CHR ''x'' # format_02x v) = Some (nat v)"
    using after_prefix_format_02x[OF assms] by simp
  show ?thesis
    unfolding py_int0_def st using lv assms by (simp add: signed_def)
qed

lemma join_hex_not_star:
  assumes "vs \<noteq> []"
  shows "join '','' (map (\<lambda>v. CHR ''0'' # CHR ''x'' # format_02x v) vs) \<noteq> ''*''"
proof -
  from assms obtain v vs' where "vs = v # vs'" by (cases vs) auto
  then have "hd (join '','' (map (\<lambda>v. CHR ''0'' # CHR ''x'' # format_02x v) vs)) = CHR ''0''"
    by (cases vs') simp_all
  then show ?thesis by auto
qed

lemma ParseErrorCodes_unparse_pieces:
  "vs \<noteq> [] \<Longrightarrow> ParseErrorCodes_unparse vs =
     join '','' (map (\<lambda>v. CHR ''0'' # CHR ''x'' # format_02x v) vs)"
  by (simp add: ParseErrorCodes_unparse_def)

lemma ParseErrorCodes_roundtrip:
  assumes "\<forall>v\<in>set vs. 0 \<le> v"
  shows "ParseErrorCodes_parse (ParseErrorCodes_unparse vs) = Inr (set vs)"
proof (cases "vs = []")
  case True
  then show ?thesis
    by (simp add: ParseErrorCodes_unparse_def ParseErrorCodes_parse_def py_strip_def is_space_def)
next
  case False
  let ?ps = "map (\<lambda>v. CHR ''0'' # CHR ''x'' # format_02x v) vs"
  let ?s = "join '','' ?ps"
  have plain: "\<forall>x\<in>set ?ps. x \<noteq> [] \<and> CHR '','' \<notin> set x \<and> (\<forall>c\<in>set x. \<not> is_space c)"
  proof
    fix x assume "x \<in> set ?ps"
    then obtain v where "v \<in> set vs" "x = CHR ''0'' # CHR ''x'' # format_02x v" by auto
    with assms hex_piece_plain[of v]
    show "x \<noteq> [] \<and> CHR '','' \<notin> set x \<and> (\<forall>c\<in>set x. \<not> is_space c)" by blast
  qed
  have csv: "parse_csv ?s = ?ps" by (rule parse_csv_join[OF plain])
  have nsp: "\<forall>c\<in>set ?s. \<not> is_space c"
  proof
    fix c assume "c \<in> set ?s"
    from join_chars[OF this] have "c = CHR '','' \<or> (\<exists>x\<in>set ?ps. c \<in> set x)" by simp
    then show "\<not> is_space c"
    proof
      assume "c = CHR '',''" then show ?thesis by (simp add: is_space_def)
    next
      assume "\<exists>x\<in>set ?ps. c \<in> set x" with plain show ?thesis by blast
    qed
  qed
  have strip: "py_strip ?s = ?s" by (rule py_strip_plain[OF nsp])
  have tr: "traverse py_int0 ?ps = Inr vs"
    by (rule traverse_map) (use assms py_int0_hex in blast)
  have ns: "?s \<noteq> ''*''" by (rule join_hex_not_star[OF False])
  have ne: "set vs \<noteq> {}" using False by simp
  show ?thesis
    unfolding ParseErrorCodes_unparse_pieces[OF False] ParseErrorCodes_parse_def Let_def strip csv tr
    using ns ne by (simp add: ensure_non_empty_set_def)
qed
subsection \<open>Array lengths printed and read back\<close>

lemma takeWhile_all: "\<forall>x\<in>set xs. P x \<Longrightarrow> \<not> P y \<Longrightarrow> takeWhile P (xs @ y # ys) = xs"
  by (induction xs) auto

lemma dropWhile_all: "\<forall>x\<in>set xs. P x \<Longrightarrow> \<not> P y \<Longrightarrow> dropWhile P (xs @ y # ys) = y # ys"
  by (induction xs) auto

lemma takeWhile_all_end: "\<forall>x\<in>set xs. P x \<Longrightarrow> takeWhile P xs = xs"
  by (induction xs) auto

lemma dropWhile_all_end: "\<forall>x\<in>set xs. P x \<Longrightarrow> dropWhile P xs = []"
  by (induction xs) auto

lemma py_str_int_nat_digits: "0 \<le> v \<Longrightarrow> c \<in> set (py_str_int v) \<Longrightarrow> is_digit c"
  by (auto simp: py_str_int_def dest: digits_of_decimal)

text \<open>The text of the sizes of one entry.\<close>

lemma sizes_text:
  assumes "vs \<noteq> []" and "\<forall>v\<in>set vs. 0 \<le> v"
  shows "join '','' (map py_str_int vs) \<noteq> []"
    and "\<forall>c\<in>set (join '','' (map py_str_int vs)). sizes_char c"
proof -
  from assms(1) obtain v vs' where v: "vs = v # vs'" by (cases vs) auto
  show "join '','' (map py_str_int vs) \<noteq> []"
    unfolding v using py_str_int_nonempty[of v] by (cases vs') simp_all
  show "\<forall>c\<in>set (join '','' (map py_str_int vs)). sizes_char c"
  proof
    fix c assume "c \<in> set (join '','' (map py_str_int vs))"
    from join_chars[OF this] have "c = CHR '','' \<or> (\<exists>v\<in>set vs. c \<in> set (py_str_int v))"
      by auto
    with assms(2) py_str_int_nat_digits show "sizes_char c"
      by (auto simp: sizes_char_def)
  qed
qed

lemma match_sizes_braces:
  assumes "lst \<noteq> []" and "\<forall>c\<in>set lst. sizes_char c"
  shows "match_sizes (CHR ''{'' # lst @ CHR ''}'' # rest) = Some ((lst, []), rest)"
proof -
  have n: "\<not> sizes_char (CHR ''}'')" by (simp add: sizes_char_def is_digit_def)
  have "takeWhile sizes_char (lst @ CHR ''}'' # rest) = lst"
    by (rule takeWhile_all[OF assms(2) n])
  moreover have "dropWhile sizes_char (lst @ CHR ''}'' # rest) = CHR ''}'' # rest"
    by (rule dropWhile_all[OF assms(2) n])
  ultimately show ?thesis using assms(1) by (simp add: match_sizes_def)
qed

lemma match_item_entry:
  assumes "k \<noteq> []" and "\<forall>c\<in>set k. name_char c"
    and "vs \<noteq> []" and "\<forall>v\<in>set vs. 0 \<le> v"
  shows "match_item (entry_text (k, vs) @ rest) =
           Some ((k, join '','' (map py_str_int vs), []), rest)"
proof -
  let ?lst = "join '','' (map py_str_int vs)"
  let ?tail = "CHR ''{'' # ?lst @ CHR ''}'' # rest"
  have e: "entry_text (k, vs) @ rest = k @ CHR ''='' # ?tail"
    by (simp add: entry_text_def)
  have n: "\<not> name_char (CHR ''='')" by (simp add: name_char_def)
  have t: "takeWhile name_char (k @ CHR ''='' # ?tail) = k"
    by (rule takeWhile_all[OF assms(2) n])
  have d: "dropWhile name_char (k @ CHR ''='' # ?tail) = CHR ''='' # ?tail"
    by (rule dropWhile_all[OF assms(2) n])
  have m: "match_sizes ?tail = Some ((?lst, []), rest)"
    by (rule match_sizes_braces[OF sizes_text[OF assms(3,4)]])
  show ?thesis unfolding e match_item_def t d using assms(1) m by simp
qed

lemma match_item_comma: "match_item (CHR '','' # s) = None"
  by (simp add: match_item_def name_char_def)

lemma match_format_nonempty:
  "s \<noteq> [] \<Longrightarrow> match_format s =
     (case match_item s of
        None \<Rightarrow> False
      | Some (groups, rest) \<Rightarrow>
          (case rest of [] \<Rightarrow> True | c # rest' \<Rightarrow> c = CHR '','' \<and> match_format rest'))"
  by (cases s) simp_all

lemma findall_items_nonempty:
  "s \<noteq> [] \<Longrightarrow> findall_items s =
     (case match_item s of
        None \<Rightarrow> findall_items (tl s)
      | Some (groups, rest) \<Rightarrow> groups # findall_items rest)"
  by (cases s) (simp_all split: option.splits)

lemma entry_text_nonempty: "entry_ok e \<Longrightarrow> entry_text e \<noteq> []"
  by (simp add: entry_text_def)

lemma unparse_Cons:
  "ParseArrayLengths_unparse (e # es) =
     entry_text e @ (if es = [] then [] else CHR '','' # ParseArrayLengths_unparse es)"
  by (cases es) (simp_all add: ParseArrayLengths_unparse_def entry_text_def split_beta)

lemma match_item_unparse:
  assumes "entry_ok e"
  shows "match_item (entry_text e @ rest) =
           Some ((fst e, join '','' (map py_str_int (snd e)), []), rest)"
  using match_item_entry[of "fst e" "snd e" rest] assms by (simp add: entry_ok_def)

lemma match_format_unparse:
  "\<forall>e\<in>set m. entry_ok e \<Longrightarrow> match_format (ParseArrayLengths_unparse m)"
proof (induction m)
  case Nil
  then show ?case by (simp add: ParseArrayLengths_unparse_def)
next
  case (Cons e es)
  then have ok: "entry_ok e" and ih: "match_format (ParseArrayLengths_unparse es)" by simp_all
  let ?rest = "if es = [] then [] else CHR '','' # ParseArrayLengths_unparse es"
  have ne: "entry_text e @ ?rest \<noteq> []" using entry_text_nonempty[OF ok] by simp
  show ?case
    unfolding unparse_Cons match_format_nonempty[OF ne] match_item_unparse[OF ok]
    using ih by simp
qed

lemma findall_items_unparse:
  "\<forall>e\<in>set m. entry_ok e \<Longrightarrow>
   findall_items (ParseArrayLengths_unparse m) =
     map (\<lambda>e. (fst e, join '','' (map py_str_int (snd e)), [])) m"
proof (induction m)
  case Nil
  then show ?case by (simp add: ParseArrayLengths_unparse_def)
next
  case (Cons e es)
  then have ok: "entry_ok e" and ih: "findall_items (ParseArrayLengths_unparse es) =
     map (\<lambda>e. (fst e, join '','' (map py_str_int (snd e)), [])) es" by simp_all
  let ?rest = "if es = [] then [] else CHR '','' # ParseArrayLengths_unparse es"
  have ne: "entry_text e @ ?rest \<noteq> []" using entry_text_nonempty[OF ok] by simp
  have r: "findall_items ?rest = findall_items (ParseArrayLengths_unparse es)"
  proof (cases "es = []")
    case True
    then show ?thesis by (simp add: ParseArrayLengths_unparse_def)
  next
    case False
    then show ?thesis by (simp add: match_item_comma)
  qed
  show ?case
    unfolding unparse_Cons findall_items_nonempty[OF ne] match_item_unparse[OF ok]
    using ih r by simp
qed

lemma dict_set_new: "k \<notin> fst ` set kvs \<Longrightarrow> dict_set k v kvs = kvs @ [(k, v)]"
  by (induction kvs) auto

lemma entry_sizes_back:
  assumes "entry_ok e"
  shows "traverse py_int (parse_csv (join '','' (map py_str_int (snd e)))) = Inr (snd e)"
proof -
  have "parse_csv (join '','' (map py_str_int (snd e))) = map py_str_int (snd e)"
    by (rule parse_csv_join)
       (auto simp: py_str_int_nonempty py_str_int_no_comma py_str_int_no_space)
  moreover have "traverse py_int (map py_str_int (snd e)) = Inr (snd e)"
    by (rule traverse_map) (simp add: py_int_py_str_int)
  ultimately show ?thesis by simp
qed

lemma lengths_of_matches_unparse:
  "\<forall>e\<in>set m. entry_ok e \<Longrightarrow> distinct (map fst (acc @ m)) \<Longrightarrow>
   lengths_of_matches (map (\<lambda>e. (fst e, join '','' (map py_str_int (snd e)), [])) m) acc
     = Inr (acc @ m)"
proof (induction m arbitrary: acc)
  case Nil
  then show ?case by simp
next
  case (Cons e es)
  then have ok: "entry_ok e" by simp
  let ?lst = "join '','' (map py_str_int (snd e))"
  have ne: "?lst \<noteq> []" using sizes_text(1)[of "snd e"] ok by (simp add: entry_ok_def)
  have st: "py_strip (fst e) = fst e"
    by (rule py_strip_plain) (use ok in \<open>simp add: entry_ok_def\<close>)
  have new: "fst e \<notin> fst ` set acc" using Cons.prems(2) by auto
  have ds: "dict_set (fst e) (snd e) acc = acc @ [e]"
    using dict_set_new[OF new, of "snd e"] by simp
  have nn: "snd e \<noteq> []" using ok by (simp add: entry_ok_def)
  have ih: "lengths_of_matches (map (\<lambda>e. (fst e, join '','' (map py_str_int (snd e)), [])) es)
      (acc @ [e]) = Inr ((acc @ [e]) @ es)"
    by (rule Cons.IH) (use Cons.prems in auto)
  show ?case
    using ne nn ih by (simp add: entry_sizes_back[OF ok] ensure_non_empty_def st ds)
qed

lemma unparse_no_space:
  "\<forall>e\<in>set m. entry_ok e \<Longrightarrow> \<forall>c\<in>set (ParseArrayLengths_unparse m). \<not> is_space c"
proof (induction m)
  case Nil
  then show ?case by (simp add: ParseArrayLengths_unparse_def)
next
  case (Cons e es)
  then have ok: "entry_ok e" and ih: "\<forall>c\<in>set (ParseArrayLengths_unparse es). \<not> is_space c"
    by simp_all
  have p: "\<not> is_space (CHR ''='')" "\<not> is_space (CHR ''{'')" "\<not> is_space (CHR ''}'')"
    "\<not> is_space (CHR '','')" by (simp_all add: is_space_def)
  have s: "\<forall>c\<in>set (join '','' (map py_str_int (snd e))). \<not> is_space c"
  proof
    fix c assume "c \<in> set (join '','' (map py_str_int (snd e)))"
    from join_chars[OF this] show "\<not> is_space c"
      using p(4) py_str_int_no_space by auto
  qed
  have "\<forall>c\<in>set (entry_text e). \<not> is_space c"
    using ok p s by (auto simp: entry_text_def entry_ok_def)
  with ih p(4) show ?case unfolding unparse_Cons by auto
qed

lemma lengths_domain_entries:
  "lengths_domain m \<Longrightarrow> distinct (map fst m) \<and> (\<forall>e\<in>set m. entry_ok e)"
  by (auto simp: lengths_domain_def entry_ok_def list_all_iff)

lemma ParseArrayLengths_roundtrip:
  assumes "lengths_domain m"
  shows "ParseArrayLengths_parse (Some (ParseArrayLengths_unparse m)) = Inr m"
proof (cases "m = []")
  case True
  then show ?thesis by (simp add: ParseArrayLengths_unparse_def ParseArrayLengths_parse_def)
next
  case False
  from lengths_domain_entries[OF assms] have d: "distinct (map fst m)"
    and ok: "\<forall>e\<in>set m. entry_ok e" by simp_all
  from False obtain e es where m: "m = e # es" by (cases m) auto
  with ok have "entry_text e \<noteq> []" using entry_text_nonempty by simp
  then have ne: "ParseArrayLengths_unparse m \<noteq> []" unfolding m unparse_Cons by simp
  have f: "filter (\<lambda>c. \<not> is_space c) (ParseArrayLengths_unparse m) = ParseArrayLengths_unparse m"
    using unparse_no_space[OF ok] by (simp add: filter_id_conv)
  have l: "lengths_of_matches (findall_items (ParseArrayLengths_unparse m)) [] = Inr m"
    unfolding findall_items_unparse[OF ok]
    using lengths_of_matches_unparse[OF ok, of "[]"] d by simp
  show ?thesis
    using ne match_format_unparse[OF ok] l by (simp add: ParseArrayLengths_parse_def f)
qed

subsection \<open>Durations printed and read back\<close>

lemma not_digit_s: "\<not> is_digit (CHR ''s'')" "\<not> is_digit (CHR ''m'')"
  by (simp_all add: is_digit_def)

lemma parse_time_digits_unit:
  assumes "u = ''s'' \<or> u = ''ms''"
  shows "parse_time (digits_of 10 n @ u) d =
     Inr (of_nat n * (if u = ''s'' then 1 else 1 / 1000))"
proof -
  from assms obtain c cs where u: "u = c # cs" "\<not> is_digit c"
    using not_digit_s by auto
  have dg: "\<forall>x\<in>set (digits_of 10 n). is_digit x" using digits_of_decimal by blast
  have t: "takeWhile is_digit (digits_of 10 n @ c # cs) = digits_of 10 n"
    by (rule takeWhile_all[OF dg u(2)])
  have dr: "dropWhile is_digit (digits_of 10 n @ c # cs) = c # cs"
    by (rule dropWhile_all[OF dg u(2)])
  have v: "digits_value 10 (digits_of 10 n) = n" by (simp add: digits_value_digits_of)
  show ?thesis
    unfolding u(1) parse_time_def Let_def t dr v
    using assms u(1) by (auto simp: digits_of_nonempty unit_seconds_def)
qed

lemma ParseTimeout_unparse_seconds:
  "1 \<le> n \<Longrightarrow> ParseTimeout_unparse (of_nat n) = digits_of 10 n @ ''s''"
proof -
  assume "1 \<le> n"
  then have "\<not> (of_nat n :: rat) < 1" by simp
  then show ?thesis by (simp add: ParseTimeout_unparse_def py_trunc_def py_str_int_def)
qed

lemma ParseTimeout_unparse_millis:
  "k < 1000 \<Longrightarrow> ParseTimeout_unparse (of_nat k / 1000) = digits_of 10 k @ ''ms''"
proof -
  assume "k < 1000"
  then have "(of_nat k :: rat) / 1000 < 1" by simp
  then show ?thesis by (simp add: ParseTimeout_unparse_def py_trunc_def py_str_int_def)
qed

lemma ParseTimeout_roundtrip_seconds:
  assumes "\<forall>j::nat. pt (digits_of 10 j @ ''s'') ''ms'' = Inr (of_nat j)" and "1 \<le> n"
  shows "ParseTimeout_parse pt (ParseTimeout_unparse (of_nat n)) = Inr (of_nat n)"
  unfolding ParseTimeout_unparse_seconds[OF assms(2)] ParseTimeout_parse_def
  using assms(1) by (rule spec)

lemma ParseTimeout_roundtrip_millis:
  assumes "\<forall>j::nat. pt (digits_of 10 j @ ''ms'') ''ms'' = Inr (of_nat j / 1000)" and "k < 1000"
  shows "ParseTimeout_parse pt (ParseTimeout_unparse (of_nat k / 1000)) = Inr (of_nat k / 1000)"
  unfolding ParseTimeout_unparse_millis[OF assms(2)] ParseTimeout_parse_def
  using assms(1) by (rule spec)

text \<open>The model of \<open>parse_time\<close> reads whole seconds and whole milliseconds as assumed.\<close>

lemma parse_time_plain:
  "\<forall>j::nat. parse_time (digits_of 10 j @ ''s'') ''ms'' = Inr (of_nat j)"
  "\<forall>j::nat. parse_time (digits_of 10 j @ ''ms'') ''ms'' = Inr (of_nat j / 1000)"
  using parse_time_digits_unit[of "''s''" _ "''ms''"] parse_time_digits_unit[of "''ms''" _ "''ms''"]
  by simp_all

subsection \<open>The domain of the array-lengths codec\<close>

text \<open>Every map that \<open>ParseArrayLengths.parse\<close> returns is in \<open>lengths_domain\<close>.\<close>

lemma match_sizes_groups:
  assumes "match_sizes r = Some ((lst, single), rest)"
  shows "(\<forall>c\<in>set lst. sizes_char c) \<and> (\<forall>c\<in>set single. is_digit c) \<and> set rest \<subseteq> set r"
proof (cases r)
  case Nil
  with assms show ?thesis by (simp add: match_sizes_def)
next
  case (Cons c r')
  show ?thesis
  proof (cases "c = CHR ''{''")
    case True
    with assms Cons obtain d where d: "dropWhile sizes_char r' = d # rest"
      and l: "lst = takeWhile sizes_char r'" and s: "single = []"
      by (auto simp: match_sizes_def split: list.splits if_splits)
    have "set (d # rest) \<subseteq> set r'" unfolding d[symmetric] by (auto dest: set_dropWhileD)
    then show ?thesis using l s Cons by (auto dest: set_takeWhileD)
  next
    case False
    with assms Cons have l: "lst = []" and s: "single = takeWhile is_digit r"
      and d: "rest = dropWhile is_digit r"
      by (auto simp: match_sizes_def split: if_splits)
    then show ?thesis by (auto dest: set_takeWhileD set_dropWhileD)
  qed
qed

lemma match_item_groups:
  assumes "match_item s = Some ((name, lst, single), rest)"
  shows "name \<noteq> [] \<and> (\<forall>c\<in>set name. name_char c \<and> c \<in> set s) \<and>
         (\<forall>c\<in>set lst. sizes_char c) \<and> (\<forall>c\<in>set single. is_digit c) \<and> set rest \<subseteq> set s"
proof -
  from assms obtain r where n: "name = takeWhile name_char s" and ne: "name \<noteq> []"
    and d: "dropWhile name_char s = CHR ''='' # r"
    and m: "match_sizes r = Some ((lst, single), rest)"
    by (auto simp: match_item_def split: if_splits list.splits option.splits)
  have "set (CHR ''='' # r) \<subseteq> set s" unfolding d[symmetric] by (auto dest: set_dropWhileD)
  with match_sizes_groups[OF m] n ne show ?thesis by (auto dest: set_takeWhileD)
qed

lemma findall_items_groups:
  "\<forall>c\<in>set s. \<not> is_space c \<Longrightarrow> \<forall>g\<in>set (findall_items s). groups_ok g"
proof (induction s rule: findall_items.induct)
  case 1
  then show ?case by simp
next
  case (2 c cs)
  show ?case
  proof (cases "match_item (c # cs)")
    case None
    with 2 show ?thesis by simp
  next
    case (Some x)
    obtain name lst single rest where x: "x = ((name, lst, single), rest)"
      by (cases x) auto
    note g = match_item_groups[OF Some[unfolded x]]
    from g "2.prems" have ok: "groups_ok (name, lst, single)"
      by (auto simp: groups_ok_def)
    from g "2.prems" have "\<forall>c\<in>set rest. \<not> is_space c" by blast
    from "2.IH"(2)[OF Some x[symmetric] this] ok Some x show ?thesis by simp
  qed
qed

lemma split_on_not_Nil: "split_on sep t \<noteq> []"
  by (induction t) (auto split: list.splits)

lemma split_on_chars:
  "x \<in> set (split_on sep t) \<Longrightarrow> c \<in> set x \<Longrightarrow> c \<in> set t \<and> c \<noteq> sep"
proof (induction t arbitrary: x)
  case Nil
  then show ?case by simp
next
  case (Cons a t)
  show ?case
  proof (cases "a = sep")
    case True
    with Cons.prems have "x = [] \<or> x \<in> set (split_on sep t)" by simp
    with Cons show ?thesis by auto
  next
    case False
    obtain w ws where w: "split_on sep t = w # ws"
      using split_on_not_Nil[of sep t] by (cases "split_on sep t") auto
    with False Cons.prems(1) have "x = a # w \<or> x \<in> set ws" by simp
    then show ?thesis
    proof
      assume "x = a # w"
      with Cons.prems(2) have "c = a \<or> c \<in> set w" by simp
      with False Cons.IH[of w] w show ?thesis by auto
    next
      assume "x \<in> set ws"
      with Cons.IH[of x] Cons.prems(2) w show ?thesis by auto
    qed
  qed
qed

lemma py_strip_subset: "c \<in> set (py_strip x) \<Longrightarrow> c \<in> set x"
  by (auto simp: py_strip_def dest!: set_dropWhileD)

lemma parse_csv_pieces:
  assumes "\<forall>c\<in>set t. sizes_char c" and "x \<in> set (parse_csv t)"
  shows "x \<noteq> [] \<and> (\<forall>c\<in>set x. is_digit c)"
proof -
  from assms(2) obtain y where y: "y \<in> set (split_on (CHR '','') t)" and x: "x = py_strip y"
    and ne: "x \<noteq> []"
    by (auto simp: parse_csv_def)
  have "\<forall>c\<in>set x. is_digit c"
  proof
    fix c assume "c \<in> set x"
    then have "c \<in> set y" unfolding x by (rule py_strip_subset)
    from split_on_chars[OF y this] assms(1) show "is_digit c" by (auto simp: sizes_char_def)
  qed
  with ne show ?thesis by simp
qed

lemma py_int_digits_nonneg:
  assumes "x \<noteq> []" and "\<forall>c\<in>set x. is_digit c" and "py_int x = Inr v"
  shows "0 \<le> v"
proof -
  have "py_strip x = x"
    by (rule py_strip_plain) (use assms(2) is_digit_not_space in blast)
  moreover from assms(1,2) obtain c cs where "x = c # cs" "is_digit c" by (cases x) auto
  then have "split_sign x = (False, x)" by (auto simp: is_digit_def)
  ultimately show ?thesis
    using assms(3) by (auto simp: py_int_def signed_def split: option.splits)
qed

lemma traverse_py_int_nonneg:
  "traverse py_int xs = Inr vs \<Longrightarrow> \<forall>x\<in>set xs. x \<noteq> [] \<and> (\<forall>c\<in>set x. is_digit c) \<Longrightarrow>
   \<forall>v\<in>set vs. 0 \<le> v"
proof (induction xs arbitrary: vs)
  case Nil
  then show ?case by simp
next
  case (Cons x xs)
  from Cons.prems(1) obtain v vs' where v: "py_int x = Inr v"
    and r: "traverse py_int xs = Inr vs'" and vs: "vs = v # vs'"
    by (auto split: sum.splits)
  from Cons.prems(2) py_int_digits_nonneg[OF _ _ v] have "0 \<le> v" by simp
  moreover from Cons.IH[OF r] Cons.prems(2) have "\<forall>v\<in>set vs'. 0 \<le> v" by simp
  ultimately show ?case using vs by simp
qed

lemma dict_set_keys:
  "map fst (dict_set k v kvs) = (if k \<in> set (map fst kvs) then map fst kvs else map fst kvs @ [k])"
  by (induction kvs) force+

lemma dict_set_domain:
  assumes "lengths_domain acc" and "entry_ok (k, vs)"
  shows "lengths_domain (dict_set k vs acc)"
proof -
  from assms(1) have d: "distinct (map fst acc)" and a: "\<forall>e\<in>set acc. entry_ok e"
    by (auto simp: lengths_domain_def entry_ok_def list_all_iff)
  have "distinct (map fst (dict_set k vs acc))" using d by (simp add: dict_set_keys)
  moreover have "\<forall>e\<in>set (dict_set k vs acc). entry_ok e"
    using a assms(2) dict_set_subset[of k vs acc] by auto
  ultimately show ?thesis
    by (auto simp: lengths_domain_def entry_ok_def list_all_iff)
qed

lemma lengths_of_matches_domain:
  "lengths_of_matches ms acc = Inr m \<Longrightarrow> lengths_domain acc \<Longrightarrow> \<forall>g\<in>set ms. groups_ok g \<Longrightarrow>
   lengths_domain m"
proof (induction ms acc rule: lengths_of_matches.induct)
  case (1 acc)
  then show ?case by simp
next
  case (2 name sizes_lst single_size ms acc)
  let ?t = "if sizes_lst \<noteq> [] then sizes_lst else single_size"
  from "2.prems"(1) obtain xs where
    xs: "traverse py_int (parse_csv ?t) = Inr xs"
    by (auto split: sum.splits)
  with "2.prems"(1) have ne: "xs \<noteq> []" and en: "ensure_non_empty xs = Inr xs"
    by (auto simp: ensure_non_empty_def split: if_splits)
  with "2.prems"(1) xs have r: "lengths_of_matches ms (dict_set (py_strip name) xs acc) = Inr m"
    by simp
  from "2.prems"(3) have g: "groups_ok (name, sizes_lst, single_size)" by simp
  then have t: "\<forall>c\<in>set ?t. sizes_char c" by (auto simp: groups_ok_def sizes_char_def)
  have nn: "\<forall>v\<in>set xs. 0 \<le> v"
    by (rule traverse_py_int_nonneg[OF xs]) (use parse_csv_pieces[OF t] in blast)
  have st: "py_strip name = name"
    by (rule py_strip_plain) (use g in \<open>simp add: groups_ok_def\<close>)
  have "entry_ok (py_strip name, xs)"
    unfolding st using g ne nn by (simp add: entry_ok_def groups_ok_def)
  from dict_set_domain[OF "2.prems"(2) this]
  have "lengths_domain (dict_set (py_strip name) xs acc)" .
  from "2.IH"[OF xs en r this] "2.prems"(3) show ?case by simp
qed

lemma ParseArrayLengths_parse_domain:
  assumes "ParseArrayLengths_parse v = Inr m"
  shows "lengths_domain m"
proof (cases "m = []")
  case True
  then show ?thesis by (simp add: lengths_domain_def)
next
  case False
  with assms obtain s where
    l: "lengths_of_matches (findall_items (filter (\<lambda>c. \<not> is_space c) s)) [] = Inr m"
    by (auto simp: ParseArrayLengths_parse_def Let_def split: option.splits if_splits)
  have "\<forall>g\<in>set (findall_items (filter (\<lambda>c. \<not> is_space c) s)). groups_ok g"
    by (rule findall_items_groups) simp
  moreover have "lengths_domain []" by (simp add: lengths_domain_def)
  ultimately show ?thesis using lengths_of_matches_domain[OF l] by blast
qed

lemma ParseCSVInt_parse_domain: "ParseCSVInt_parse s = Inr vs \<Longrightarrow> vs \<noteq> []"
  by (auto simp: ParseCSVInt_parse_def ensure_non_empty_def split: sum.splits if_splits)

subsection \<open>The grammar of the array lengths\<close>

text \<open>The matcher of one item finds exactly the items of the grammar.\<close>

lemma match_item_of_item_text:
  assumes "item_text g t" and "rest = [] \<or> hd rest = CHR '',''"
  shows "match_item (t @ rest) = Some (g, rest)"
  using assms(1)
proof cases
  case (braces name lst)
  have n: "\<not> name_char (CHR ''='')" by (simp add: name_char_def)
  from braces have nm: "\<forall>c\<in>set name. name_char c" and ls: "\<forall>c\<in>set lst. sizes_char c"
    by (simp_all add: list_all_iff)
  let ?tail = "CHR ''{'' # lst @ CHR ''}'' # rest"
  have e: "t @ rest = name @ CHR ''='' # ?tail" using braces by simp
  have t: "takeWhile name_char (name @ CHR ''='' # ?tail) = name"
    by (rule takeWhile_all[OF nm n])
  have d: "dropWhile name_char (name @ CHR ''='' # ?tail) = CHR ''='' # ?tail"
    by (rule dropWhile_all[OF nm n])
  have m: "match_sizes ?tail = Some ((lst, []), rest)"
    by (rule match_sizes_braces[OF braces(5) ls])
  show ?thesis unfolding e match_item_def t d using braces(1,3) m by simp
next
  case (bare name single)
  have n: "\<not> name_char (CHR ''='')" by (simp add: name_char_def)
  from bare have nm: "\<forall>c\<in>set name. name_char c" and ds: "\<forall>c\<in>set single. is_digit c"
    by (simp_all add: list_all_iff)
  let ?tail = "single @ rest"
  have e: "t @ rest = name @ CHR ''='' # ?tail" using bare by simp
  have t: "takeWhile name_char (name @ CHR ''='' # ?tail) = name"
    by (rule takeWhile_all[OF nm n])
  have d: "dropWhile name_char (name @ CHR ''='' # ?tail) = CHR ''='' # ?tail"
    by (rule dropWhile_all[OF nm n])
  from bare(5) obtain c cs where s: "single = c # cs" by (cases single) auto
  with ds have c: "is_digit c" by simp
  then have nb: "c \<noteq> CHR ''{''" by (auto simp: is_digit_def)
  have tk: "takeWhile is_digit ?tail = single" and dr: "dropWhile is_digit ?tail = rest"
  proof -
    show "takeWhile is_digit ?tail = single"
    proof (cases rest)
      case Nil
      then show ?thesis using takeWhile_all_end[OF ds] by simp
    next
      case (Cons r rs)
      with assms(2) have "\<not> is_digit r" by (simp add: is_digit_def)
      with Cons show ?thesis using takeWhile_all[OF ds, of r rs] by simp
    qed
    show "dropWhile is_digit ?tail = rest"
    proof (cases rest)
      case Nil
      then show ?thesis using dropWhile_all_end[OF ds] by simp
    next
      case (Cons r rs)
      with assms(2) have "\<not> is_digit r" by (simp add: is_digit_def)
      with Cons show ?thesis using dropWhile_all[OF ds, of r rs] by simp
    qed
  qed
  have m: "match_sizes ?tail = Some (([], single), rest)"
    using tk dr bare(5) nb s by (simp add: match_sizes_def)
  show ?thesis unfolding e match_item_def t d using bare(1,3) m by simp
qed

lemma item_text_of_match_item:
  assumes "match_item s = Some (g, rest)"
  shows "\<exists>t. item_text g t \<and> s = t @ rest"
proof -
  obtain name lst single where g: "g = (name, lst, single)" by (cases g) auto
  from assms g obtain r where n: "name = takeWhile name_char s" and ne: "name \<noteq> []"
    and d: "dropWhile name_char s = CHR ''='' # r"
    and m: "match_sizes r = Some ((lst, single), rest)"
    by (auto simp: match_item_def split: if_splits list.splits option.splits)
  have s: "s = name @ CHR ''='' # r"
    using takeWhile_dropWhile_id[of name_char s] n d by simp
  have nm: "list_all name_char name"
    unfolding n list_all_iff by (auto dest: set_takeWhileD)
  show ?thesis
  proof (cases r)
    case Nil
    with m show ?thesis by (simp add: match_sizes_def)
  next
    case (Cons c r')
    show ?thesis
    proof (cases "c = CHR ''{''")
      case True
      with m Cons have dd: "dropWhile sizes_char r' = CHR ''}'' # rest"
        and l: "lst = takeWhile sizes_char r'" and ln: "lst \<noteq> []" and sg: "single = []"
        by (auto simp: match_sizes_def split: list.splits if_splits)
      have r': "r' = lst @ CHR ''}'' # rest"
        using takeWhile_dropWhile_id[of sizes_char r'] l dd by simp
      have "list_all sizes_char lst"
        unfolding l list_all_iff by (auto dest: set_takeWhileD)
      from item_text.braces[OF ne nm ln this]
      have "item_text g (name @ ''={'' @ lst @ ''}'')" unfolding g sg .
      moreover have "s = (name @ ''={'' @ lst @ ''}'') @ rest"
        using s Cons True r' by simp
      ultimately show ?thesis by blast
    next
      case False
      with m Cons have l: "lst = []" and sg: "single = takeWhile is_digit r"
        and sn: "single \<noteq> []" and rs: "rest = dropWhile is_digit r"
        by (auto simp: match_sizes_def split: if_splits)
      have rr: "r = single @ rest"
        using takeWhile_dropWhile_id[of is_digit r] sg rs by simp
      have "list_all is_digit single"
        unfolding sg list_all_iff by (auto dest: set_takeWhileD)
      from item_text.bare[OF ne nm sn this]
      have "item_text g (name @ ''='' @ single)" unfolding g l .
      moreover have "s = (name @ ''='' @ single) @ rest"
        using s rr by simp
      ultimately show ?thesis by blast
    qed
  qed
qed

lemma item_text_nonempty: "item_text g t \<Longrightarrow> t \<noteq> []"
  by (auto elim: item_text.cases)

text \<open>
  The format check and the search for the items agree with the grammar: a text that is
  a sequence of items passes the check, and the search finds these items and no other.
\<close>

lemma items_text_matched:
  "items_text gs s \<Longrightarrow> match_format s \<and> findall_items s = gs"
proof (induction rule: items_text.induct)
  case none
  show ?case by simp
next
  case (final g t)
  from match_item_of_item_text[OF final, of "[]"] have m: "match_item t = Some (g, [])" by simp
  from item_text_nonempty[OF final] have ne: "t \<noteq> []" .
  show ?case
    unfolding match_format_nonempty[OF ne] findall_items_nonempty[OF ne] m by simp
next
  case (more g t gs rest)
  from match_item_of_item_text[OF more(1), of "CHR '','' # rest"]
  have m: "match_item (t @ '','' @ rest) = Some (g, CHR '','' # rest)" by simp
  from item_text_nonempty[OF more(1)] have ne: "t @ '','' @ rest \<noteq> []" by simp
  have f: "findall_items (CHR '','' # rest) = findall_items rest"
    by (simp add: match_item_comma)
  show ?case
    unfolding match_format_nonempty[OF ne] findall_items_nonempty[OF ne] m
    using more.IH f by simp
qed

lemma match_format_items_text:
  "match_format s \<Longrightarrow> \<exists>gs. items_text gs s"
proof (induction s rule: length_induct)
  case (1 s)
  show ?case
  proof (cases "s = []")
    case True
    then show ?thesis using items_text.none by blast
  next
    case False
    from "1.prems" match_format_nonempty[OF False] obtain g rest where
      m: "match_item s = Some (g, rest)"
      by (cases "match_item s") auto
    from "1.prems" have
      r: "rest = [] \<or> (\<exists>rest'. rest = CHR '','' # rest' \<and> match_format rest')"
      unfolding match_format_nonempty[OF False] m by (cases rest) simp_all
    from item_text_of_match_item[OF m] obtain t where t: "item_text g t" and s: "s = t @ rest"
      by blast
    from r show ?thesis
    proof
      assume "rest = []"
      with s have "s = t" by simp
      with items_text.final[OF t] show ?thesis by blast
    next
      assume "\<exists>rest'. rest = CHR '','' # rest' \<and> match_format rest'"
      then obtain rest' where r': "rest = CHR '','' # rest'" and mf: "match_format rest'" by blast
      have "length rest' < length s" unfolding s r' by simp
      with "1.IH" mf obtain gs where "items_text gs rest'" by blast
      from items_text.more[OF t this] have "items_text (g # gs) s" unfolding s r' by simp
      then show ?thesis by blast
    qed
  qed
qed

lemma well_formed_match_format: "well_formed s \<longleftrightarrow> match_format s"
  unfolding well_formed_def using items_text_matched match_format_items_text by blast

text \<open>The sizes of an item, as the comprehension reads them.\<close>

lemma is_digit_decimal:
  assumes "is_digit c"
  shows "is_digit_of 10 c \<and> c \<noteq> CHR ''_''"
proof -
  from assms have "c = CHR ''0'' \<or> c = CHR ''1'' \<or> c = CHR ''2'' \<or> c = CHR ''3'' \<or> c = CHR ''4''
      \<or> c = CHR ''5'' \<or> c = CHR ''6'' \<or> c = CHR ''7'' \<or> c = CHR ''8'' \<or> c = CHR ''9''"
    by (simp add: is_digit_def)
  then show ?thesis
    by (elim disjE) (simp_all add: is_digit_of_def digit_value_def)
qed

lemma py_int_digits:
  assumes "x \<noteq> []" and "\<forall>c\<in>set x. is_digit c"
  shows "py_int x = Inr (int (digits_value 10 x))"
proof -
  have st: "py_strip x = x"
    by (rule py_strip_plain) (use assms(2) is_digit_not_space in blast)
  from assms obtain c cs where "x = c # cs" "is_digit c" by (cases x) auto
  then have sg: "split_sign x = (False, x)" by (auto simp: is_digit_def)
  have "digit_groups_ok 10 x"
    by (rule digit_groups_ok_plain[OF assms(1)]) (use assms(2) is_digit_decimal in blast)
  then have "parse_digits 10 x = Some (digits_value 10 x)" by (simp add: parse_digits_def)
  with st sg show ?thesis by (simp add: py_int_def signed_def)
qed

lemma traverse_all: "\<forall>x\<in>set xs. f x = Inr (h x) \<Longrightarrow> traverse f xs = Inr (map h xs)"
  by (induction xs) auto

lemma sizes_of_text:
  assumes "\<forall>c\<in>set t. sizes_char c"
  shows "traverse py_int (parse_csv t) =
     Inr (map (\<lambda>piece. int (digits_value 10 piece))
            (filter (\<lambda>piece. piece \<noteq> []) (split_on (CHR '','') t)))"
proof -
  have d: "\<forall>c\<in>set p. is_digit c" if "p \<in> set (split_on (CHR '','') t)" for p
  proof
    fix c assume "c \<in> set p"
    from split_on_chars[OF that this] have "c \<in> set t" "c \<noteq> CHR '',''" by simp_all
    with assms show "is_digit c" by (auto simp: sizes_char_def)
  qed
  have "map py_strip (split_on (CHR '','') t) = split_on (CHR '','') t"
  proof (rule map_idI)
    fix p assume "p \<in> set (split_on (CHR '','') t)"
    from d[OF this] have "\<forall>c\<in>set p. \<not> is_space c" using is_digit_not_space by blast
    then show "py_strip p = p" by (rule py_strip_plain)
  qed
  then have p: "parse_csv t = filter (\<lambda>piece. piece \<noteq> []) (split_on (CHR '','') t)"
    by (simp add: parse_csv_def)
  show ?thesis unfolding p
  proof (rule traverse_all, rule ballI)
    fix x assume "x \<in> set (filter (\<lambda>piece. piece \<noteq> []) (split_on (CHR '','') t))"
    then have "x \<noteq> []" "x \<in> set (split_on (CHR '','') t)" by simp_all
    from py_int_digits[OF this(1) d[OF this(2)]]
    show "py_int x = Inr (int (digits_value 10 x))" .
  qed
qed

lemma item_text_groups:
  assumes "item_text (name, lst, single) t"
  shows "name \<noteq> [] \<and> set name \<subseteq> set t \<and> (\<forall>c\<in>set (lst @ single). sizes_char c) \<and>
         (if lst \<noteq> [] then lst else single) = lst @ single"
  using assms
proof cases
  case braces
  then show ?thesis by (auto simp: list_all_iff)
next
  case bare
  then show ?thesis by (auto simp: list_all_iff sizes_char_def)
qed

lemma items_text_groups:
  "items_text gs s \<Longrightarrow> g \<in> set gs \<Longrightarrow> \<exists>t. item_text g t \<and> set t \<subseteq> set s"
  by (induction rule: items_text.induct) auto

lemma map_of_dict_set: "map_of (dict_set k v kvs) = (map_of kvs)(k \<mapsto> v)"
  by (induction kvs) auto

text \<open>
  The comprehension over items of the grammar, in a text without whitespace: it raises
  when an item has no size, and else stores every item, in the order of the text.
\<close>

lemma lengths_of_matches_items:
  assumes "\<forall>g\<in>set gs. \<exists>t. item_text g t \<and> (\<forall>c\<in>set t. \<not> is_space c)"
  shows "lengths_of_matches gs acc =
     (if \<exists>g\<in>set gs. item_sizes g = [] then Inl (ValueError ''required a non-empty list'')
      else Inr (foldl (\<lambda>acc g. dict_set (fst g) (item_sizes g) acc) acc gs))"
  using assms
proof (induction gs arbitrary: acc)
  case Nil
  show ?case by simp
next
  case (Cons g gs)
  obtain name lst single where g: "g = (name, lst, single)" by (cases g) auto
  from Cons.prems g obtain t where t: "item_text (name, lst, single) t"
    and ns: "\<forall>c\<in>set t. \<not> is_space c" by auto
  note gr = item_text_groups[OF t]
  from gr have sel: "(if lst \<noteq> [] then lst else single) = lst @ single" by simp
  from gr have sc: "\<forall>c\<in>set (lst @ single). sizes_char c" by simp
  have sz: "traverse py_int (parse_csv (lst @ single)) = Inr (item_sizes g)"
    unfolding g item_sizes_def using sizes_of_text[OF sc] by simp
  have st: "py_strip name = name"
  proof (rule py_strip_plain, rule ballI)
    fix c assume "c \<in> set name"
    with gr have "c \<in> set t" by blast
    with ns show "\<not> is_space c" by simp
  qed
  have ih: "lengths_of_matches gs acc' =
     (if \<exists>g\<in>set gs. item_sizes g = [] then Inl (ValueError ''required a non-empty list'')
      else Inr (foldl (\<lambda>acc g. dict_set (fst g) (item_sizes g) acc) acc' gs))" for acc'
    by (rule Cons.IH) (use Cons.prems in simp)
  have "lengths_of_matches (g # gs) acc =
      (case ensure_non_empty (item_sizes g) of
         Inl e \<Rightarrow> Inl e
       | Inr sizes \<Rightarrow> lengths_of_matches gs (dict_set name sizes acc))"
    unfolding g lengths_of_matches.simps sel sz[unfolded g] st by simp
  also have "\<dots> =
     (if \<exists>g\<in>set (g # gs). item_sizes g = [] then Inl (ValueError ''required a non-empty list'')
      else Inr (foldl (\<lambda>acc g. dict_set (fst g) (item_sizes g) acc) acc (g # gs)))"
    unfolding ih by (simp add: ensure_non_empty_def g)
  finally show ?case .
qed

lemma foldl_dict_set_map_of:
  "map_of (foldl (\<lambda>acc g. dict_set (fst g) (h g) acc) acc gs) =
     map_of acc ++ map_of (rev (map (\<lambda>g. (fst g, h g)) gs))"
proof (induction gs arbitrary: acc)
  case Nil
  show ?case by simp
next
  case (Cons g gs)
  let ?M = "map_of (rev (map (\<lambda>g. (fst g, h g)) gs))"
  let ?f = "\<lambda>acc g. dict_set (fst g) (h g) acc"
  have "map_of (foldl ?f acc (g # gs)) = map_of (foldl ?f (dict_set (fst g) (h g) acc) gs)"
    by simp
  also have "\<dots> = map_of (dict_set (fst g) (h g) acc) ++ ?M"
    by (rule Cons.IH)
  also have "\<dots> = (map_of acc)(fst g \<mapsto> h g) ++ ?M"
    by (simp only: map_of_dict_set)
  also have "\<dots> = map_of acc ++ ([fst g \<mapsto> h g] ++ ?M)"
    by (rule ext) (simp add: map_add_def split: option.splits)
  also have "\<dots> = map_of acc ++ map_of (rev (map (\<lambda>g. (fst g, h g)) (g # gs)))"
    by simp
  finally show ?case .
qed

lemma dict_set_key_set: "fst ` set (dict_set k v kvs) = insert k (fst ` set kvs)"
proof -
  have "set (map fst (dict_set k v kvs)) = insert k (set (map fst kvs))"
    unfolding dict_set_keys by auto
  then show ?thesis by simp
qed

lemma foldl_dict_set_keys:
  "fst ` set (foldl (\<lambda>acc g. dict_set (fst g) (h g) acc) acc gs) =
     fst ` set acc \<union> fst ` set gs"
proof (induction gs arbitrary: acc)
  case Nil
  show ?case by simp
next
  case (Cons g gs)
  from Cons.IH[of "dict_set (fst g) (h g) acc"] show ?case
    by (simp add: dict_set_key_set)
qed

lemma dict_set_distinct: "distinct (map fst kvs) \<Longrightarrow> distinct (map fst (dict_set k v kvs))"
  by (simp add: dict_set_keys)

lemma foldl_dict_set_distinct:
  "distinct (map fst acc) \<Longrightarrow>
   distinct (map fst (foldl (\<lambda>acc g. dict_set (fst g) (h g) acc) acc gs))"
proof (induction gs arbitrary: acc)
  case Nil
  then show ?case by simp
next
  case (Cons g gs)
  from Cons.IH[OF dict_set_distinct[OF Cons.prems]] show ?case by simp
qed

lemma ParseArrayLengths_parse_items:
  assumes "s \<noteq> []" and "items_text gs (filter (\<lambda>c. \<not> is_space c) s)"
  shows "ParseArrayLengths_parse (Some s) =
     (if \<exists>g\<in>set gs. item_sizes g = [] then Inl (ValueError ''required a non-empty list'')
      else Inr (foldl (\<lambda>acc g. dict_set (fst g) (item_sizes g) acc) [] gs))"
proof -
  let ?v = "filter (\<lambda>c. \<not> is_space c) s"
  from items_text_matched[OF assms(2)] have m: "match_format ?v" and f: "findall_items ?v = gs"
    by simp_all
  have "\<forall>g\<in>set gs. \<exists>t. item_text g t \<and> (\<forall>c\<in>set t. \<not> is_space c)"
  proof
    fix g assume "g \<in> set gs"
    from items_text_groups[OF assms(2) this] obtain t where "item_text g t" "set t \<subseteq> set ?v"
      by blast
    then show "\<exists>t. item_text g t \<and> (\<forall>c\<in>set t. \<not> is_space c)" by auto
  qed
  from lengths_of_matches_items[OF this, of "[]"] show ?thesis
    using assms(1) m f by (simp add: ParseArrayLengths_parse_def)
qed

text \<open>
  C7. \<open>a={1,2},b=3\<close> parses to the map of \<open>a\<close> to \<open>[1, 2]\<close> and of \<open>b\<close> to \<open>[3]\<close>, and
  \<open>a={1,2\<close> raises \<open>ValueError\<close>. For every input that is not empty: if its text,
  whitespace removed, is not a sequence of items of the grammar, \<open>parse\<close> raises
  \<open>ValueError\<close> with the message \<open>invalid array lengths format\<close>; if it is the text of
  the items \<open>gs\<close>, \<open>parse\<close> raises \<open>ValueError\<close> when one of the items has no size, and
  else returns a map that holds every item of the text: its keys are the names of the
  items, each once, and the value of a name is the list of the sizes of the last item
  of this name. So an input either raises \<open>ValueError\<close> or gives the map of all its
  items, never the map of some of them.
\<close>

theorem ParseArrayLengths_parse_grammar:
  "ParseArrayLengths_parse (Some ''a={1,2},b=3'') = Inr [(''a'', [1, 2]), (''b'', [3])] \<and>
   ParseArrayLengths_parse (Some ''a={1,2'') =
     Inl (ValueError ''invalid array lengths format: a={1,2'') \<and>
   (\<forall>s. s \<noteq> [] \<and> \<not> well_formed (filter (\<lambda>c. \<not> is_space c) s) \<longrightarrow>
      ParseArrayLengths_parse (Some s) =
        Inl (ValueError (''invalid array lengths format: '' @ filter (\<lambda>c. \<not> is_space c) s))) \<and>
   (\<forall>s gs. s \<noteq> [] \<and> items_text gs (filter (\<lambda>c. \<not> is_space c) s) \<longrightarrow>
      (if \<exists>g\<in>set gs. item_sizes g = []
       then ParseArrayLengths_parse (Some s) = Inl (ValueError ''required a non-empty list'')
       else \<exists>m. ParseArrayLengths_parse (Some s) = Inr m \<and>
              fst ` set m = fst ` set gs \<and> distinct (map fst m) \<and>
              map_of m = map_of (rev (map (\<lambda>g. (fst g, item_sizes g)) gs))))"
proof -
  have a: "ParseArrayLengths_parse (Some ''a={1,2},b=3'') = Inr [(''a'', [1, 2]), (''b'', [3])]"
    by (simp add: ParseArrayLengths_parse_def is_space_def match_item_def match_sizes_def
      name_char_def sizes_char_def is_digit_def parse_csv_def py_strip_def py_int_def
      parse_digits_def digit_groups_ok_def digits_value_def is_digit_of_def digit_value_def
      ensure_non_empty_def signed_def)
  have b: "ParseArrayLengths_parse (Some ''a={1,2'') =
     Inl (ValueError ''invalid array lengths format: a={1,2'')"
    by (simp add: ParseArrayLengths_parse_def is_space_def match_item_def match_sizes_def
      name_char_def sizes_char_def is_digit_def)
  have c: "\<forall>s. s \<noteq> [] \<and> \<not> well_formed (filter (\<lambda>c. \<not> is_space c) s) \<longrightarrow>
      ParseArrayLengths_parse (Some s) =
        Inl (ValueError (''invalid array lengths format: '' @ filter (\<lambda>c. \<not> is_space c) s))"
    by (simp add: ParseArrayLengths_parse_def well_formed_match_format)
  have d: "\<forall>s gs. s \<noteq> [] \<and> items_text gs (filter (\<lambda>c. \<not> is_space c) s) \<longrightarrow>
      (if \<exists>g\<in>set gs. item_sizes g = []
       then ParseArrayLengths_parse (Some s) = Inl (ValueError ''required a non-empty list'')
       else \<exists>m. ParseArrayLengths_parse (Some s) = Inr m \<and>
              fst ` set m = fst ` set gs \<and> distinct (map fst m) \<and>
              map_of m = map_of (rev (map (\<lambda>g. (fst g, item_sizes g)) gs)))"
  proof (intro allI impI)
    fix s gs
    assume h: "s \<noteq> [] \<and> items_text gs (filter (\<lambda>c. \<not> is_space c) s)"
    then have p: "ParseArrayLengths_parse (Some s) =
       (if \<exists>g\<in>set gs. item_sizes g = [] then Inl (ValueError ''required a non-empty list'')
        else Inr (foldl (\<lambda>acc g. dict_set (fst g) (item_sizes g) acc) [] gs))"
      using ParseArrayLengths_parse_items by blast
    let ?m = "foldl (\<lambda>acc g. dict_set (fst g) (item_sizes g) acc) [] gs"
    have k: "fst ` set ?m = fst ` set gs"
      using foldl_dict_set_keys[of item_sizes "[]" gs] by simp
    have di: "distinct (map fst ?m)"
      by (rule foldl_dict_set_distinct) simp
    have mo: "map_of ?m = map_of (rev (map (\<lambda>g. (fst g, item_sizes g)) gs))"
      using foldl_dict_set_map_of[of item_sizes "[]" gs] by simp
    show "if \<exists>g\<in>set gs. item_sizes g = []
       then ParseArrayLengths_parse (Some s) = Inl (ValueError ''required a non-empty list'')
       else \<exists>m. ParseArrayLengths_parse (Some s) = Inr m \<and>
              fst ` set m = fst ` set gs \<and> distinct (map fst m) \<and>
              map_of m = map_of (rev (map (\<lambda>g. (fst g, item_sizes g)) gs))"
    proof (cases "\<exists>g\<in>set gs. item_sizes g = []")
      case True
      with p show ?thesis by simp
    next
      case False
      with p have "ParseArrayLengths_parse (Some s) = Inr ?m" by simp
      with k di mo False show ?thesis by simp
    qed
  qed
  from a b c d show ?thesis by blast
qed

lemma example_sizes:
  "item_sizes (''a'', '','', []) = []"
  "item_sizes (''a'', ''1,2'', []) = [1, 2]"
  "item_sizes (''b'', [], ''3'') = [3]"
  by (simp_all add: item_sizes_def digits_value_def digit_value_def)

theorem ParseArrayLengths_parse_grammar_witness:
  "''a=1,b={2'' \<noteq> [] \<and> \<not> well_formed (filter (\<lambda>c. \<not> is_space c) ''a=1,b={2'') \<and>
   ParseArrayLengths_parse (Some ''a=1,b={2'') =
     Inl (ValueError ''invalid array lengths format: a=1,b={2'') \<and>
   items_text [(''a'', '','', [])] (filter (\<lambda>c. \<not> is_space c) ''a = {,}'') \<and>
   ParseArrayLengths_parse (Some ''a = {,}'') = Inl (ValueError ''required a non-empty list'') \<and>
   items_text [(''a'', ''1,2'', []), (''b'', [], ''3'')]
     (filter (\<lambda>c. \<not> is_space c) ''a = {1,2}, b = 3'') \<and>
   (\<exists>m. ParseArrayLengths_parse (Some ''a = {1,2}, b = 3'') = Inr m \<and>
        fst ` set m = {''a'', ''b''} \<and> distinct (map fst m) \<and>
        map_of m ''a'' = Some [1, 2] \<and> map_of m ''b'' = Some [3])"
proof -
  note t = ParseArrayLengths_parse_grammar
  have f1: "filter (\<lambda>c. \<not> is_space c) ''a=1,b={2'' = ''a=1,b={2''" by (simp add: is_space_def)
  have f2: "filter (\<lambda>c. \<not> is_space c) ''a = {,}'' = ''a={,}''" by (simp add: is_space_def)
  have f3: "filter (\<lambda>c. \<not> is_space c) ''a = {1,2}, b = 3'' = ''a={1,2},b=3''"
    by (simp add: is_space_def)
  have ne: "''a=1,b={2'' \<noteq> []" by simp
  have n: "\<not> well_formed (filter (\<lambda>c. \<not> is_space c) ''a=1,b={2'')"
    unfolding f1 well_formed_match_format
    by (simp add: match_item_def match_sizes_def name_char_def sizes_char_def is_digit_def)
  have a: "ParseArrayLengths_parse (Some ''a=1,b={2'') =
     Inl (ValueError (''invalid array lengths format: '' @ filter (\<lambda>c. \<not> is_space c) ''a=1,b={2''))"
    by (rule t[THEN conjunct2, THEN conjunct2, THEN conjunct1, THEN spec, THEN mp,
          OF conjI[OF ne n]])
  have a': "ParseArrayLengths_parse (Some ''a=1,b={2'') =
     Inl (ValueError ''invalid array lengths format: a=1,b={2'')"
    using a unfolding f1 by simp
  have i2: "items_text [(''a'', '','', [])] (filter (\<lambda>c. \<not> is_space c) ''a = {,}'')"
    unfolding f2 by code_simp
  have ne2: "''a = {,}'' \<noteq> []" by simp
  have e2: "\<exists>g\<in>set [(''a'', '','', [])]. item_sizes g = []" by (simp add: example_sizes)
  have b: "ParseArrayLengths_parse (Some ''a = {,}'') = Inl (ValueError ''required a non-empty list'')"
    using t[THEN conjunct2, THEN conjunct2, THEN conjunct2, THEN spec, THEN spec, THEN mp,
          OF conjI[OF ne2 i2]] e2
    by (simp only: if_True)
  have i3: "items_text [(''a'', ''1,2'', []), (''b'', [], ''3'')]
     (filter (\<lambda>c. \<not> is_space c) ''a = {1,2}, b = 3'')"
    unfolding f3 by code_simp
  have ne3: "''a = {1,2}, b = 3'' \<noteq> []" by simp
  have e3: "\<not> (\<exists>g\<in>set [(''a'', ''1,2'', []), (''b'', [], ''3'')]. item_sizes g = [])"
    by (simp add: example_sizes)
  from t[THEN conjunct2, THEN conjunct2, THEN conjunct2, THEN spec, THEN spec, THEN mp,
          OF conjI[OF ne3 i3]] e3
  obtain m where m: "ParseArrayLengths_parse (Some ''a = {1,2}, b = 3'') = Inr m"
    "fst ` set m = fst ` set [(''a'', ''1,2'', []), (''b'', [], ''3'')]"
    "distinct (map fst m)"
    "map_of m = map_of (rev (map (\<lambda>g. (fst g, item_sizes g))
        [(''a'', ''1,2'', []), (''b'', [], ''3'')]))"
    by (simp only: if_False) blast
  have c: "\<exists>m. ParseArrayLengths_parse (Some ''a = {1,2}, b = 3'') = Inr m \<and>
        fst ` set m = {''a'', ''b''} \<and> distinct (map fst m) \<and>
        map_of m ''a'' = Some [1, 2] \<and> map_of m ''b'' = Some [3]"
  proof (intro exI conjI)
    show "ParseArrayLengths_parse (Some ''a = {1,2}, b = 3'') = Inr m" by (rule m(1))
    show "fst ` set m = {''a'', ''b''}" unfolding m(2) by simp
    show "distinct (map fst m)" by (rule m(3))
    show "map_of m ''a'' = Some [1, 2]" unfolding m(4) by (simp add: example_sizes)
    show "map_of m ''b'' = Some [3]" unfolding m(4) by (simp add: example_sizes)
  qed
  show ?thesis
    apply (intro conjI)
          apply (rule ne)
         apply (rule n)
        apply (rule a')
       apply (rule i2)
      apply (rule b)
     apply (rule i3)
    apply (rule c)
    done
qed

text \<open>
  The items of the grammar are read leniently: an empty piece between two commas and a
  comma after the last item stand for nothing, and of two items of one name the later
  one is kept.
\<close>

lemma ParseArrayLengths_parse_lenient:
  "ParseArrayLengths_parse (Some ''a={1,,2},b=3,a=7,'') = Inr [(''a'', [7]), (''b'', [3])]"
  by (simp add: ParseArrayLengths_parse_def is_space_def match_item_def match_sizes_def
      name_char_def sizes_char_def is_digit_def parse_csv_def py_strip_def py_int_def
      parse_digits_def digit_groups_ok_def digits_value_def is_digit_of_def digit_value_def
      ensure_non_empty_def signed_def)

subsection \<open>The round trip of the codecs\<close>

text \<open>
  C3. \<open>parse(serialize(v)) == v\<close>, for every list of integers that is not empty (the
  lists that the codec can return); for every list of trace events; for every set of
  error codes none of which is negative, in whatever order the set is printed; for
  every map of array lengths of \<open>lengths_domain\<close> (which holds every map that the codec
  can return); and, given that \<open>parse_time\<close> reads a decimal number followed by \<open>s\<close> as
  that number of seconds and one followed by \<open>ms\<close> as that number of thousandths of a
  second, for a duration that is a whole number of seconds, at least one, or a whole
  number of milliseconds below one second.
\<close>

theorem codec_roundtrip:
  "(\<forall>vs. vs \<noteq> [] \<longrightarrow> ParseCSVInt_parse (ParseCSVInt_unparse vs) = Inr vs) \<and>
   (\<forall>es. ParseCSVTraceEvent_parse (ParseCSVTraceEvent_unparse es) = Inr es) \<and>
   (\<forall>vs. list_all (\<lambda>v. 0 \<le> v) vs \<longrightarrow>
      ParseErrorCodes_parse (ParseErrorCodes_unparse vs) = Inr (set vs)) \<and>
   (\<forall>m. lengths_domain m \<longrightarrow>
      ParseArrayLengths_parse (Some (ParseArrayLengths_unparse m)) = Inr m) \<and>
   (\<forall>s vs. ParseCSVInt_parse s = Inr vs \<longrightarrow> vs \<noteq> []) \<and>
   (\<forall>v m. ParseArrayLengths_parse v = Inr m \<longrightarrow> lengths_domain m) \<and>
   (\<forall>pt. \<forall>n::nat.
      (\<forall>j::nat. pt (digits_of 10 j @ ''s'') ''ms'' = Inr (of_nat j)) \<and> 1 \<le> n \<longrightarrow>
      ParseTimeout_parse pt (ParseTimeout_unparse (of_nat n)) = Inr (of_nat n)) \<and>
   (\<forall>pt. \<forall>k::nat.
      (\<forall>j::nat. pt (digits_of 10 j @ ''ms'') ''ms'' = Inr (of_nat j / 1000)) \<and> k < 1000 \<longrightarrow>
      ParseTimeout_parse pt (ParseTimeout_unparse (of_nat k / 1000)) = Inr (of_nat k / 1000))"
proof (intro conjI allI impI)
  fix vs :: "int list" assume "vs \<noteq> []"
  then show "ParseCSVInt_parse (ParseCSVInt_unparse vs) = Inr vs"
    by (rule ParseCSVInt_roundtrip)
next
  fix es show "ParseCSVTraceEvent_parse (ParseCSVTraceEvent_unparse es) = Inr es"
    by (rule ParseCSVTraceEvent_roundtrip)
next
  fix vs :: "int list" assume "list_all (\<lambda>v. 0 \<le> v) vs"
  then have "\<forall>v\<in>set vs. 0 \<le> v" by (simp add: list_all_iff)
  then show "ParseErrorCodes_parse (ParseErrorCodes_unparse vs) = Inr (set vs)"
    by (rule ParseErrorCodes_roundtrip)
next
  fix m assume "lengths_domain m"
  then show "ParseArrayLengths_parse (Some (ParseArrayLengths_unparse m)) = Inr m"
    by (rule ParseArrayLengths_roundtrip)
next
  fix s vs assume "ParseCSVInt_parse s = Inr vs"
  then show "vs \<noteq> []" by (rule ParseCSVInt_parse_domain)
next
  fix v m assume "ParseArrayLengths_parse v = Inr m"
  then show "lengths_domain m" by (rule ParseArrayLengths_parse_domain)
next
  fix pt :: "string \<Rightarrow> string \<Rightarrow> pyerror + rat" and n :: nat
  assume h: "(\<forall>j::nat. pt (digits_of 10 j @ ''s'') ''ms'' = Inr (of_nat j)) \<and> 1 \<le> n"
  show "ParseTimeout_parse pt (ParseTimeout_unparse (of_nat n)) = Inr (of_nat n)"
    using h by (intro ParseTimeout_roundtrip_seconds[of pt n]) simp_all
next
  fix pt :: "string \<Rightarrow> string \<Rightarrow> pyerror + rat" and k :: nat
  assume h: "(\<forall>j::nat. pt (digits_of 10 j @ ''ms'') ''ms'' = Inr (of_nat j / 1000)) \<and> k < 1000"
  show "ParseTimeout_parse pt (ParseTimeout_unparse (of_nat k / 1000)) = Inr (of_nat k / 1000)"
    using h by (intro ParseTimeout_roundtrip_millis[of pt k]) simp_all
qed

lemma example_lengths_domain: "lengths_domain [(''a'', [1, 2]), (''b'', [3])]"
  by (simp add: lengths_domain_def name_char_def is_space_def)

lemma example_unparse:
  "ParseCSVInt_unparse [0, 1, 2] = ''0,1,2''"
  "ParseCSVTraceEvent_unparse [LOG, SLOAD] = ''LOG,SLOAD''"
  "ParseErrorCodes_unparse [1, 17] = ''0x01,0x11''"
  "ParseArrayLengths_unparse [(''a'', [1, 2]), (''b'', [3])] = ''a={1,2},b={3}''"
  "ParseTimeout_unparse 5 = ''5s''"
  "ParseTimeout_unparse (1 / 2) = ''500ms''"
  by (simp_all add: ParseCSVInt_unparse_def ParseCSVTraceEvent_unparse_def
      ParseErrorCodes_unparse_def ParseArrayLengths_unparse_def ParseTimeout_unparse_def
      py_str_int_def format_02x_def py_trunc_def digits_of.simps to_digit_def)

theorem codec_roundtrip_witness:
  "ParseCSVInt_parse ''0,1,2'' = Inr [0, 1, 2] \<and>
   ParseCSVTraceEvent_parse ''LOG,SLOAD'' = Inr [LOG, SLOAD] \<and>
   ParseErrorCodes_parse ''0x01,0x11'' = Inr {1, 17} \<and>
   ParseArrayLengths_parse (Some ''a={1,2},b={3}'') = Inr [(''a'', [1, 2]), (''b'', [3])] \<and>
   ParseTimeout_parse parse_time ''5s'' = Inr 5 \<and>
   ParseTimeout_parse parse_time ''500ms'' = Inr (1 / 2)"
proof -
  note t = codec_roundtrip
  have n1: "[0, 1, 2 :: int] \<noteq> []" by simp
  have n3: "list_all (\<lambda>v. 0 \<le> v) [1, 17 :: int]" by simp
  have n5: "(\<forall>j::nat. parse_time (digits_of 10 j @ ''s'') ''ms'' = Inr (of_nat j)) \<and> 1 \<le> (5 :: nat)"
    using parse_time_plain(1) by simp
  have n6: "(\<forall>j::nat. parse_time (digits_of 10 j @ ''ms'') ''ms'' = Inr (of_nat j / 1000))
      \<and> (500 :: nat) < 1000"
    using parse_time_plain(2) by simp
  have a: "ParseCSVInt_parse ''0,1,2'' = Inr [0, 1, 2]"
    using t[THEN conjunct1, THEN spec, THEN mp, OF n1] by (simp only: example_unparse)
  have b: "ParseCSVTraceEvent_parse ''LOG,SLOAD'' = Inr [LOG, SLOAD]"
    using t[THEN conjunct2, THEN conjunct1, THEN spec, of "[LOG, SLOAD]"]
    by (simp only: example_unparse)
  have c: "ParseErrorCodes_parse ''0x01,0x11'' = Inr {1, 17}"
    using t[THEN conjunct2, THEN conjunct2, THEN conjunct1, THEN spec, THEN mp, OF n3]
    by (simp add: example_unparse)
  have d: "ParseArrayLengths_parse (Some ''a={1,2},b={3}'') = Inr [(''a'', [1, 2]), (''b'', [3])]"
    using t[THEN conjunct2, THEN conjunct2, THEN conjunct2, THEN conjunct1, THEN spec, THEN mp,
        OF example_lengths_domain]
    by (simp only: example_unparse)
  have e: "ParseTimeout_parse parse_time ''5s'' = Inr 5"
    using t[THEN conjunct2, THEN conjunct2, THEN conjunct2, THEN conjunct2, THEN conjunct2,
        THEN conjunct2, THEN conjunct1,
        THEN spec[of _ parse_time], THEN spec[of _ 5], THEN mp, OF n5]
    by (simp add: example_unparse)
  have f: "ParseTimeout_parse parse_time ''500ms'' = Inr (1 / 2)"
    using t[THEN conjunct2, THEN conjunct2, THEN conjunct2, THEN conjunct2, THEN conjunct2,
        THEN conjunct2, THEN conjunct2,
        THEN spec[of _ parse_time], THEN spec[of _ 500], THEN mp, OF n6]
    by (simp add: example_unparse)
  show ?thesis
    apply (intro conjI)
         apply (rule a)
        apply (rule b)
       apply (rule c)
      apply (rule d)
     apply (rule e)
    apply (rule f)
    done
qed

text \<open>
  The durations of one and a half seconds and of one second are both printed as \<open>1s\<close>,
  so whatever \<open>parse\<close> makes of \<open>1s\<close> is not both; with the model of \<open>parse_time\<close>, the
  first is what \<open>1500ms\<close> parses to and it reads back as one second. The set of the one
  code \<open>-1\<close>, which \<open>-1\<close> parses to, is printed as \<open>0x-1\<close>, which does not parse.
\<close>

theorem codec_roundtrip_fails:
  "ParseTimeout_unparse (3 / 2) = ''1s'' \<and>
   ParseTimeout_unparse 1 = ''1s'' \<and>
   (3 / 2 :: rat) \<noteq> 1 \<and>
   ParseTimeout_parse parse_time ''1500ms'' = Inr (3 / 2) \<and>
   ParseTimeout_parse parse_time (ParseTimeout_unparse (3 / 2)) = Inr 1 \<and>
   ParseErrorCodes_parse ''-1'' = Inr {- 1} \<and>
   ParseErrorCodes_unparse [- 1] = ''0x-1'' \<and>
   ParseErrorCodes_parse (ParseErrorCodes_unparse [- 1]) =
     Inl (ValueError ''invalid literal for int() with base 0'')"
proof -
  have fl: "\<lfloor>3 / 2 :: rat\<rfloor> = 1" by (simp add: floor_eq_iff)
  have u: "ParseTimeout_unparse (3 / 2) = ''1s''" "ParseTimeout_unparse 1 = ''1s''"
    by (simp_all add: ParseTimeout_unparse_def py_str_int_def py_trunc_def fl digits_of.simps
        to_digit_def)
  have p: "ParseTimeout_parse parse_time ''1500ms'' = Inr (3 / 2)"
    "ParseTimeout_parse parse_time ''1s'' = Inr 1"
    by (simp_all add: ParseTimeout_parse_def parse_time_def is_digit_def unit_seconds_def
        digits_value_def digit_value_def)
  have e: "ParseErrorCodes_unparse [- 1] = ''0x-1''"
    by (simp add: ParseErrorCodes_unparse_def format_02x_def digits_of.simps to_digit_def)
  have q: "ParseErrorCodes_parse ''-1'' = Inr {- 1}"
    by (simp add: ParseErrorCodes_parse_def py_strip_def is_space_def parse_csv_def py_int0_def
      parse_digits_def digit_groups_ok_def digits_value_def is_digit_of_def
      digit_value_def ensure_non_empty_set_def signed_def)
  have r: "ParseErrorCodes_parse ''0x-1'' =
      Inl (ValueError ''invalid literal for int() with base 0'')"
    by (simp add: ParseErrorCodes_parse_def py_strip_def is_space_def parse_csv_def py_int0_def
      after_prefix_def parse_digits_def digit_groups_ok_def is_digit_of_def digit_value_def)
  show ?thesis unfolding u e using p q r by simp
qed

end
